theory Spec2Isabelle
  imports Main "HOL-Library.Word"
begin

section \<open>Data model\<close>

text \<open>
  The kinds of \<^verbatim>\<open>reflect.Kind\<close>. The seven kinds the package dispatches on are
  constructors of their own; every other kind is \<open>KOther\<close> of an \<open>okind\<close>.
\<close>

datatype okind =
    Invalid | Bool | Int | Int8 | Int16 | Int32 | Uint | Uint8 | Uint16 | Uint32
  | Uintptr | Float32 | Float64 | Complex64 | Complex128 | Array | Chan | Func
  | Interface | UnsafePointer

datatype kind = KInt64 | KUint64 | KString | KSlice | KPtr | KStruct | KMap | KOther okind

text \<open>
  Errors are values. The first group are the errors the package returns (\<^verbatim>\<open>io.EOF\<close>,
  \<^verbatim>\<open>io.ErrUnexpectedEOF\<close>, the \<^verbatim>\<open>fmt.Errorf\<close> messages, the two causes of a
  \<^verbatim>\<open>strconv.NumError\<close>); the constructors named \<open>Panic...\<close> are run-time panics of
  the Go program, which no caller of the package receives as an \<^verbatim>\<open>error\<close>.
  \<open>NotModelled\<close> marks the one call this theory does not follow: injection into a
  \<^verbatim>\<open>*RawMessage\<close> by reflection over the fields of \<^verbatim>\<open>RawMessage\<close> itself.
\<close>

datatype error =
    EOF
  | ErrUnexpectedEOF
  | NotADigit
  | UnexpectedCharacter char
  | ErrSyntax
  | ErrRange
  | NotAPOD kind
  | MismatchedType kind kind
  | NotASlice kind
  | NotAPtrMap kind
  | NotAStruct kind
  | FieldError string error
  | PanicIndexOutOfRange
  | PanicTypeAssertion
  | PanicMakeSlice
  | PanicReflect
  | NotModelled

fun is_panic :: "error \<Rightarrow> bool" where
  "is_panic PanicIndexOutOfRange = True"
| "is_panic PanicTypeAssertion = True"
| "is_panic PanicMakeSlice = True"
| "is_panic PanicReflect = True"
| "is_panic _ = False"

text \<open>
  \<^verbatim>\<open>RawMessage.POD\<close> is an \<^verbatim>\<open>interface{}\<close>: \<open>None\<close> is the nil interface. The decoder
  and the projector store an \<^verbatim>\<open>int64\<close>, a \<^verbatim>\<open>uint64\<close> or a \<^verbatim>\<open>string\<close> there;
  \<open>POther k\<close> stands for a dynamic value of any other type, of kind \<open>k\<close>.
\<close>

datatype pod = PInt64 "64 word" | PUint64 "64 word" | PString string | POther kind

text \<open>
  \<^verbatim>\<open>type RawMessage struct { POD interface{}; L []*RawMessage; D []*KV }\<close> and
  \<^verbatim>\<open>type KV struct { K string; V *RawMessage }\<close>. The pointers of a tree built by the
  decoder or the projector are never nil, so a child is modelled by the message it points
  to; a nil slice and an empty slice are both \<open>[]\<close> (the code only takes \<^verbatim>\<open>len\<close>).
\<close>

datatype RawMessage =
  RawMessage (POD: "pod option") (L: "RawMessage list") (D: "(string \<times> RawMessage) list")

section \<open>The decoder\<close>

definition isDigit :: "char \<Rightarrow> bool" where
  "isDigit c \<longleftrightarrow> (48::nat) \<le> of_char c \<and> of_char c \<le> (57::nat)"

text \<open>
  A \<^verbatim>\<open>bufio.Reader\<close> over a finite input is the list of bytes not read yet; every
  reading function returns the rest with its result. \<^verbatim>\<open>UnreadByte\<close> is only called
  right after a successful \<^verbatim>\<open>ReadByte\<close>, where it cannot fail.
\<close>

fun isDelim :: "string \<Rightarrow> char \<Rightarrow> error + (bool \<times> string)" where
  "isDelim [] delim = Inl EOF"
| "isDelim (c # r) delim = (if c = delim then Inr (True, r) else Inr (False, c # r))"

lemma isDelim_length: "isDelim r delim = Inr (b, r') \<Longrightarrow> length r' \<le> length r"
  by (cases r) (auto split: if_splits)

function intBuf_loop :: "string \<Rightarrow> char \<Rightarrow> string \<Rightarrow> error + (string \<times> string)" where
  "intBuf_loop r delim buf =
     (case isDelim r delim of
        Inl err \<Rightarrow> Inl err
      | Inr (ok, r') \<Rightarrow>
          if ok then Inr (buf, r')
          else (case r' of
                  [] \<Rightarrow> Inl EOF
                | c # r'' \<Rightarrow>
                    if \<not> (c = CHR ''-'' \<or> isDigit c) then Inl NotADigit
                    else intBuf_loop r'' delim (buf @ [c])))"
  by pat_completeness auto
termination intBuf_loop
  by (relation "measure (\<lambda>(r, delim, buf). length r)") (auto dest: isDelim_length)

declare intBuf_loop.simps [simp del]

definition intBuf :: "string \<Rightarrow> char \<Rightarrow> error + (string \<times> string)" where
  "intBuf r delim = intBuf_loop r delim []"

text \<open>
  \<^verbatim>\<open>strconv.ParseUint(s, 0, 64)\<close> and \<^verbatim>\<open>strconv.ParseInt(s, 0, 64)\<close> of the Go
  standard library, on the strings \<open>intBuf\<close> can return (bytes \<^verbatim>\<open>-\<close> and
  \<^verbatim>\<open>0\<close>..\<^verbatim>\<open>9\<close>). Base 0 takes the base from the prefix: a leading \<^verbatim>\<open>0\<close> means octal.
  The accumulator is a \<open>nat\<close> with the two overflow tests of the library written out.
\<close>

definition maxUint64 :: nat where
  "maxUint64 = 2 ^ 64 - 1"

fun ParseUint_loop :: "nat \<Rightarrow> string \<Rightarrow> nat \<Rightarrow> error + nat" where
  "ParseUint_loop base [] n = Inr n"
| "ParseUint_loop base (c # s) n =
     (if \<not> isDigit c then Inl ErrSyntax
      else let d = of_char c - (48::nat) in
        if d \<ge> base then Inl ErrSyntax
        else if n \<ge> maxUint64 div base + 1 then Inl ErrRange
        else if n * base + d > maxUint64 then Inl ErrRange
        else ParseUint_loop base s (n * base + d))"

definition ParseUint :: "string \<Rightarrow> error + nat" where
  "ParseUint s =
     (case s of
        [] \<Rightarrow> Inl ErrSyntax
      | c # s' \<Rightarrow> if c = CHR ''0'' then ParseUint_loop 8 s' 0 else ParseUint_loop 10 s 0)"

definition ParseInt :: "string \<Rightarrow> error + 64 word" where
  "ParseInt s =
     (case s of
        [] \<Rightarrow> Inl ErrSyntax
      | c # s' \<Rightarrow>
          let neg = (c = CHR ''-'');
              s1 = (if c = CHR ''+'' \<or> c = CHR ''-'' then s' else s)
          in (case ParseUint s1 of
                Inl err \<Rightarrow> Inl err
              | Inr un \<Rightarrow>
                  if \<not> neg \<and> un \<ge> 2 ^ 63 then Inl ErrRange
                  else if neg \<and> un > 2 ^ 63 then Inl ErrRange
                  else Inr (if neg then - (word_of_nat un) else word_of_nat un)))"

text \<open>
  \<^verbatim>\<open>strBuf\<close>: the length prefix, then \<^verbatim>\<open>io.ReadFull\<close> into \<^verbatim>\<open>make([]byte, l)\<close>.
  A length that does not fit Go's \<^verbatim>\<open>int\<close> makes \<^verbatim>\<open>make\<close> panic; below that the
  allocation is taken to succeed. \<^verbatim>\<open>ReadFull\<close> reports \<^verbatim>\<open>io.EOF\<close> when it read
  nothing and \<^verbatim>\<open>io.ErrUnexpectedEOF\<close> when it read only a part.
\<close>

definition ReadFull :: "string \<Rightarrow> nat \<Rightarrow> error + (string \<times> string)" where
  "ReadFull r l =
     (if l \<le> length r then Inr (take l r, drop l r)
      else if r = [] then Inl EOF
      else Inl ErrUnexpectedEOF)"

definition strBuf :: "string \<Rightarrow> error + (string \<times> string)" where
  "strBuf r =
     (case intBuf r (CHR '':'') of
        Inl err \<Rightarrow> Inl err
      | Inr (intbuf, r') \<Rightarrow>
          (case ParseUint intbuf of
             Inl err \<Rightarrow> Inl err
           | Inr l \<Rightarrow>
               if l \<ge> 2 ^ 63 then Inl PanicMakeSlice
               else ReadFull r' l))"

text \<open>
  \<^verbatim>\<open>decodeRawMessage(r, n)\<close> is always called on a fresh \<^verbatim>\<open>&RawMessage{}\<close>, which
  it fills: the model returns the filled message. The two loops of the source are
  \<open>decodeList\<close> and \<open>decodeDict\<close>, with \<^verbatim>\<open>n.L\<close> and \<^verbatim>\<open>n.D\<close> as accumulators.
  \<^verbatim>\<open>intbuf[0]\<close> on an empty token and \<^verbatim>\<open>k.POD.(string)\<close> on a key that is not a
  string are run-time panics.
\<close>

function decodeRawMessage :: "string \<Rightarrow> error + (RawMessage \<times> string)"
  and decodeList :: "string \<Rightarrow> RawMessage list \<Rightarrow> error + (RawMessage list \<times> string)"
  and decodeDict :: "string \<Rightarrow> (string \<times> RawMessage) list \<Rightarrow>
        error + ((string \<times> RawMessage) list \<times> string)"
where
  "decodeRawMessage r =
     (case r of
        [] \<Rightarrow> Inl EOF
      | c # r1 \<Rightarrow>
          if isDigit c then
            (case strBuf r of
               Inl err \<Rightarrow> Inl err
             | Inr (strbuf, r2) \<Rightarrow> Inr (RawMessage (Some (PString strbuf)) [] [], r2))
          else if c = CHR ''i'' then
            (case intBuf r1 (CHR ''e'') of
               Inl err \<Rightarrow> Inl err
             | Inr (intbuf, r2) \<Rightarrow>
                 (case intbuf of
                    [] \<Rightarrow> Inl PanicIndexOutOfRange
                  | c0 # _ \<Rightarrow>
                      if c0 = CHR ''-'' then
                        (case ParseInt intbuf of
                           Inl err \<Rightarrow> Inl err
                         | Inr i \<Rightarrow> Inr (RawMessage (Some (PInt64 i)) [] [], r2))
                      else
                        (case ParseUint intbuf of
                           Inl err \<Rightarrow> Inl err
                         | Inr u \<Rightarrow> Inr (RawMessage (Some (PUint64 (word_of_nat u))) [] [], r2))))
          else if c = CHR ''l'' then
            (case decodeList r1 [] of
               Inl err \<Rightarrow> Inl err
             | Inr (l, r2) \<Rightarrow> Inr (RawMessage None l [], r2))
          else if c = CHR ''d'' then
            (case decodeDict r1 [] of
               Inl err \<Rightarrow> Inl err
             | Inr (d, r2) \<Rightarrow> Inr (RawMessage None [] d, r2))
          else Inl (UnexpectedCharacter c))"
| "decodeList r l =
     (case isDelim r (CHR ''e'') of
        Inl err \<Rightarrow> Inl err
      | Inr (ok, r1) \<Rightarrow>
          if ok then Inr (l, r1)
          else (case decodeRawMessage r1 of
                  Inl err \<Rightarrow> Inl err
                | Inr (ln, r2) \<Rightarrow> decodeList r2 (l @ [ln])))"
| "decodeDict r d =
     (case isDelim r (CHR ''e'') of
        Inl err \<Rightarrow> Inl err
      | Inr (ok, r1) \<Rightarrow>
          if ok then Inr (d, r1)
          else (case decodeRawMessage r1 of
                  Inl err \<Rightarrow> Inl err
                | Inr (k, r2) \<Rightarrow>
                    (case decodeRawMessage r2 of
                       Inl err \<Rightarrow> Inl err
                     | Inr (v, r3) \<Rightarrow>
                         (case POD k of
                            Some (PString s) \<Rightarrow> decodeDict r3 (d @ [(s, v)])
                          | _ \<Rightarrow> Inl PanicTypeAssertion))))"
  by pat_completeness auto

lemma intBuf_loop_Nil [simp]: "intBuf_loop [] delim buf = Inl EOF"
  by (simp add: intBuf_loop.simps)

lemma intBuf_loop_Cons [simp]:
  "intBuf_loop (c # r) delim buf =
     (if c = delim then Inr (buf, r)
      else if \<not> (c = CHR ''-'' \<or> isDigit c) then Inl NotADigit
      else intBuf_loop r delim (buf @ [c]))"
  by (simp add: intBuf_loop.simps [of "c # r"])

lemma intBuf_loop_length:
  "intBuf_loop r delim buf = Inr (s, r') \<Longrightarrow> length r' < length r"
proof (induction r arbitrary: buf)
  case Nil
  then show ?case by simp
next
  case (Cons c r)
  show ?case
  proof (cases "c = delim")
    case True
    with Cons.prems show ?thesis by simp
  next
    case False
    with Cons.prems have "intBuf_loop r delim (buf @ [c]) = Inr (s, r')"
      by (simp split: if_splits)
    from Cons.IH [OF this] show ?thesis by simp
  qed
qed

lemma strBuf_length: "strBuf r = Inr (s, r') \<Longrightarrow> length r' < length r"
  by (auto simp: strBuf_def intBuf_def ReadFull_def split: sum.splits if_splits
      dest!: intBuf_loop_length)

lemma decode_length:
  "decodeRawMessage_decodeList_decodeDict_dom (Inl r) \<Longrightarrow>
     decodeRawMessage r = Inr (m, r') \<Longrightarrow> length r' < length r"
  "decodeRawMessage_decodeList_decodeDict_dom (Inr (Inl (r, l))) \<Longrightarrow>
     decodeList r l = Inr (l', r') \<Longrightarrow> length r' < length r"
  "decodeRawMessage_decodeList_decodeDict_dom (Inr (Inr (r, d))) \<Longrightarrow>
     decodeDict r d = Inr (d', r') \<Longrightarrow> length r' < length r"
proof (induction r and r l and r d arbitrary: m r' and l' r' and d' r'
    rule: decodeRawMessage_decodeList_decodeDict.pinduct)
  case (1 r)
  show ?case
  proof (cases r)
    case Nil
    with "1.prems" "1.hyps" show ?thesis by (simp add: decodeRawMessage.psimps)
  next
    case (Cons c r1)
    note eq = "1.prems" [unfolded decodeRawMessage.psimps [OF "1.hyps"], unfolded Cons, simplified]
    show ?thesis
    proof (cases "isDigit c")
      case True
      with eq Cons show ?thesis
        by (auto split: sum.splits dest: strBuf_length)
    next
      case nd: False
      show ?thesis
      proof (cases "c = CHR ''i''")
        case True
        with eq nd Cons show ?thesis
          by (auto simp: intBuf_def split: sum.splits list.splits if_splits dest!: intBuf_loop_length)
      next
        case ni: False
        show ?thesis
        proof (cases "c = CHR ''l''")
          case True
          with eq nd ni obtain l where "decodeList r1 [] = Inr (l, r')"
            by (auto split: sum.splits)
          from "1.IH"(1) [OF Cons nd ni True this] Cons show ?thesis by simp
        next
          case nl: False
          show ?thesis
          proof (cases "c = CHR ''d''")
            case True
            with eq nd ni nl obtain d where "decodeDict r1 [] = Inr (d, r')"
              by (auto split: sum.splits)
            from "1.IH"(2) [OF Cons nd ni nl True this] Cons show ?thesis by simp
          next
            case False
            with eq nd ni nl show ?thesis by simp
          qed
        qed
      qed
    qed
  qed
next
  case (2 r l)
  note eq = "2.prems" [unfolded decodeList.psimps [OF "2.hyps"]]
  show ?case
  proof (cases r)
    case Nil
    with eq show ?thesis by simp
  next
    case (Cons c r0)
    show ?thesis
    proof (cases "c = CHR ''e''")
      case True
      with eq Cons show ?thesis by auto
    next
      case False
      with eq Cons obtain ln r2 where a: "decodeRawMessage r = Inr (ln, r2)"
        and b: "decodeList r2 (l @ [ln]) = Inr (l', r')"
        by (auto split: sum.splits)
      have d: "isDelim r (CHR ''e'') = Inr (False, r)" using Cons False by simp
      from "2.IH"(1) [OF d refl _ a] have "length r2 < length r" by simp
      moreover from "2.IH"(2) [OF d refl _ a refl b] have "length r' < length r2" by simp
      ultimately show ?thesis by simp
    qed
  qed
next
  case (3 r d)
  note eq = "3.prems" [unfolded decodeDict.psimps [OF "3.hyps"]]
  show ?case
  proof (cases r)
    case Nil
    with eq show ?thesis by simp
  next
    case (Cons c r0)
    show ?thesis
    proof (cases "c = CHR ''e''")
      case True
      with eq Cons show ?thesis by auto
    next
      case False
      with eq Cons obtain k r2 v r3 s where a: "decodeRawMessage r = Inr (k, r2)"
        and b: "decodeRawMessage r2 = Inr (v, r3)"
        and p: "POD k = Some (PString s)"
        and c: "decodeDict r3 (d @ [(s, v)]) = Inr (d', r')"
        by (auto split: sum.splits option.splits pod.splits)
      have dl: "isDelim r (CHR ''e'') = Inr (False, r)" using Cons False by simp
      from "3.IH"(1) [OF dl refl _ a] have "length r2 < length r" by simp
      moreover from "3.IH"(2) [OF dl refl _ a refl b] have "length r3 < length r2" by simp
      moreover from "3.IH"(3) [OF dl refl _ a refl b refl p refl c] have "length r' < length r3" by simp
      ultimately show ?thesis by simp
    qed
  qed
qed

termination decodeRawMessage
proof (relation "measure (\<lambda>x. case x of Inl r \<Rightarrow> 2 * length r
                                 | Inr (Inl (r, l)) \<Rightarrow> 2 * length r + 1
                                 | Inr (Inr (r, d)) \<Rightarrow> 2 * length r + 1)", goal_cases)
  case 1 show ?case by simp
next
  case (2 r c r1) then show ?case by simp
next
  case (3 r c r1) then show ?case by simp
next
  case (4 r l x ok r1) then show ?case by (cases r) (auto split: if_splits)
next
  case (5 r l x ok r1 y ln r2)
  then show ?case using decode_length(1) [of r1 ln r2]
    by (cases r) (auto split: if_splits)
next
  case (6 r d x ok r1) then show ?case by (cases r) (auto split: if_splits)
next
  case (7 r d x ok r1 y k r2)
  then show ?case using decode_length(1) [of r1 k r2]
    by (cases r) (auto split: if_splits)
next
  case (8 r d x ok r1 y k r2 z v r3)
  then show ?case using decode_length(1) [of r1 k r2] decode_length(1) [of r2 v r3]
    by (cases r) (auto split: if_splits)
qed

declare decodeRawMessage.simps [simp del] decodeList.simps [simp del] decodeDict.simps [simp del]

definition Decode :: "string \<Rightarrow> error + RawMessage" where
  "Decode b = (case decodeRawMessage b of Inl err \<Rightarrow> Inl err | Inr (root, r) \<Rightarrow> Inr root)"

section \<open>The encoder\<close>

text \<open>
  \<^verbatim>\<open>fmt.Sprintf("%d", x)\<close>: the decimal digits of a natural number, and a minus sign
  before the magnitude of a negative \<^verbatim>\<open>int64\<close>.
\<close>

definition digit :: "nat \<Rightarrow> char" where
  "digit d = char_of (48 + d)"

fun showNat :: "nat \<Rightarrow> string" where
  "showNat n = (if n < 10 then [digit n] else showNat (n div 10) @ [digit (n mod 10)])"

declare showNat.simps [simp del]

definition showInt :: "int \<Rightarrow> string" where
  "showInt i = (if i < 0 then CHR ''-'' # showNat (nat (- i)) else showNat (nat i))"

fun encodePOD :: "pod \<Rightarrow> string" where
  "encodePOD (PInt64 i) = CHR ''i'' # showInt (sint i) @ ''e''"
| "encodePOD (PUint64 u) = CHR ''i'' # showNat (unat u) @ ''e''"
| "encodePOD (PString s) = showNat (length s) @ CHR '':'' # s"
| "encodePOD (POther k) = []"

text \<open>
  \<^verbatim>\<open>encodeRawMessage(m, w)\<close> writes to a \<^verbatim>\<open>bufio.Writer\<close> and drops every write
  error; the model returns the bytes written.
\<close>

fun encodeRawMessage :: "RawMessage \<Rightarrow> string" where
  "encodeRawMessage (RawMessage pod l d) =
     (case pod of
        Some p \<Rightarrow> encodePOD p
      | None \<Rightarrow>
          if length l > 0 then
            CHR ''l'' # concat (map encodeRawMessage l) @ ''e''
          else if length d > 0 then
            CHR ''d'' # concat (map (\<lambda>kv. encodePOD (PString (fst kv)) @ encodeRawMessage (snd kv)) d) @ ''e''
          else [])"

section \<open>Typed values, as reflection sees them\<close>

text \<open>
  \<^verbatim>\<open>reflect.StructField\<close>: the name, the package path (empty for an exported field),
  the tag as its key-value pairs, and the type. \<open>gtype\<close> is \<^verbatim>\<open>reflect.Type\<close>:
  the types the package dispatches on, \<^verbatim>\<open>RawMessage\<close> itself (opaque: it is its own
  element type), and \<open>TOther\<close> for a type of any other kind. Defined types other than
  structs are outside the model.
\<close>

datatype 't StructField =
  StructField (Name: string) (PkgPath: string) (Tag: "(string \<times> string) list") (Type: 't)

datatype gtype =
    TInt64 | TUint64 | TString
  | TSlice gtype
  | TPtr gtype
  | TMap gtype gtype
  | TStruct string "gtype StructField list"
  | TRawMessage
  | TOther okind

text \<open>
  \<^verbatim>\<open>reflect.Value\<close>: a value that knows its type. A slice carries its element type,
  a pointer its pointee type (\<open>None\<close> is nil), a struct its name and its fields in
  declaration order, each with its descriptor. A nil and an empty slice (or map) are
  both \<open>[]\<close>: the code only takes \<^verbatim>\<open>Len\<close>.
\<close>

datatype gval =
    VInt64 "64 word"
  | VUint64 "64 word"
  | VString string
  | VSlice gtype "gval list"
  | VPtr gtype "gval option"
  | VMap gtype gtype "(gval \<times> gval) list"
  | VStruct string "(gtype StructField \<times> gval) list"
  | VRawMessage RawMessage
  | VOther okind nat

fun Kind :: "gtype \<Rightarrow> kind" where
  "Kind TInt64 = KInt64"
| "Kind TUint64 = KUint64"
| "Kind TString = KString"
| "Kind (TSlice t) = KSlice"
| "Kind (TPtr t) = KPtr"
| "Kind (TMap k v) = KMap"
| "Kind (TStruct n fs) = KStruct"
| "Kind TRawMessage = KStruct"
| "Kind (TOther k) = KOther k"

fun TypeName :: "gtype \<Rightarrow> string" where
  "TypeName TInt64 = ''int64''"
| "TypeName TUint64 = ''uint64''"
| "TypeName TString = ''string''"
| "TypeName (TStruct n fs) = n"
| "TypeName TRawMessage = ''RawMessage''"
| "TypeName _ = []"

fun TypeOf :: "gval \<Rightarrow> gtype" where
  "TypeOf (VInt64 i) = TInt64"
| "TypeOf (VUint64 u) = TUint64"
| "TypeOf (VString s) = TString"
| "TypeOf (VSlice t vs) = TSlice t"
| "TypeOf (VPtr t p) = TPtr t"
| "TypeOf (VMap k v es) = TMap k v"
| "TypeOf (VStruct n fvs) = TStruct n (map fst fvs)"
| "TypeOf (VRawMessage rm) = TRawMessage"
| "TypeOf (VOther k x) = TOther k"

function (sequential) Zero :: "gtype \<Rightarrow> gval"
  and ZeroFields :: "gtype StructField list \<Rightarrow> (gtype StructField \<times> gval) list"
where
  "Zero TInt64 = VInt64 0"
| "Zero TUint64 = VUint64 0"
| "Zero TString = VString []"
| "Zero (TSlice t) = VSlice t []"
| "Zero (TPtr t) = VPtr t None"
| "Zero (TMap k v) = VMap k v []"
| "Zero (TStruct n fs) = VStruct n (ZeroFields fs)"
| "Zero TRawMessage = VRawMessage (RawMessage None [] [])"
| "Zero (TOther k) = VOther k 0"
| "ZeroFields [] = []"
| "ZeroFields (StructField nm pk tg t # fs) = (StructField nm pk tg t, Zero t) # ZeroFields fs"
  by pat_completeness auto
termination Zero
  by (relation "measure (case_sum size (size_list (size_StructField size)))") auto

section \<open>Injection: Generic Value to typed value\<close>

definition isPOD :: "kind \<Rightarrow> bool" where
  "isPOD k \<longleftrightarrow> k = KInt64 \<or> k = KUint64 \<or> k = KString"

definition isRawMessagePtr :: "gtype \<Rightarrow> bool" where
  "isRawMessagePtr typ \<longleftrightarrow> (case typ of TPtr t \<Rightarrow> TypeName t = ''RawMessage'' | _ \<Rightarrow> False)"

fun podKind :: "pod \<Rightarrow> kind" where
  "podKind (PInt64 i) = KInt64"
| "podKind (PUint64 u) = KUint64"
| "podKind (PString s) = KString"
| "podKind (POther k) = k"

text \<open>\<^verbatim>\<open>val.Interface()\<close>, as stored in \<^verbatim>\<open>RawMessage.POD\<close>.\<close>

fun ValueInterface :: "gval \<Rightarrow> pod" where
  "ValueInterface (VInt64 i) = PInt64 i"
| "ValueInterface (VUint64 u) = PUint64 u"
| "ValueInterface (VString s) = PString s"
| "ValueInterface v = POther (Kind (TypeOf v))"

text \<open>
  \<^verbatim>\<open>unmarshalPOD(pod, val)\<close> stores through the pointer \<^verbatim>\<open>val\<close>: the model takes the
  target \<^verbatim>\<open>val.Elem()\<close> and returns its new value. \<^verbatim>\<open>int64(pod.(uint64))\<close> keeps the
  64 bits. \<^verbatim>\<open>v.Set\<close> panics when the dynamic type of \<^verbatim>\<open>pod\<close> is not the target's.
\<close>

definition unmarshalPOD :: "pod \<Rightarrow> gval \<Rightarrow> error + gval" where
  "unmarshalPOD pod v =
     (let podk = podKind pod in
      if \<not> isPOD podk then Inl (NotAPOD podk)
      else
        let k = Kind (TypeOf v) in
        if k = KInt64 \<and> podk = KUint64 then
          (case pod of PUint64 u \<Rightarrow> Inr (VInt64 u) | _ \<Rightarrow> Inl PanicTypeAssertion)
        else if podk \<noteq> k then Inl (MismatchedType k podk)
        else
          (case pod of
             PInt64 i \<Rightarrow> Inr (VInt64 i)
           | PUint64 u \<Rightarrow> Inr (VUint64 u)
           | PString s \<Rightarrow> Inr (VString s)
           | POther k' \<Rightarrow> Inl PanicReflect))"

text \<open>
  The wire key of a field: the \<^verbatim>\<open>ben\<close> tag when it is not empty, the field name
  otherwise. \<open>fieldsMap\<close> is the loop that fills \<^verbatim>\<open>fields\<close>; the \<^verbatim>\<open>reflect.Value\<close>
  \<^verbatim>\<open>v.Field(i)\<close> it stores is the index \<open>i\<close>.
\<close>

definition TagGet :: "(string \<times> string) list \<Rightarrow> string \<Rightarrow> string" where
  "TagGet tag key = (case map_of tag key of None \<Rightarrow> [] | Some v \<Rightarrow> v)"

definition fieldKey :: "gtype StructField \<Rightarrow> string" where
  "fieldKey field =
     (let key = Name field in
      if length (Tag field) > 0 then
        (let tag = TagGet (Tag field) ''ben'' in if length tag > 0 then tag else key)
      else key)"

fun fieldsMap :: "nat \<Rightarrow> gtype StructField list \<Rightarrow> (string \<rightharpoonup> nat) \<Rightarrow> (string \<rightharpoonup> nat)" where
  "fieldsMap i [] fields = fields"
| "fieldsMap i (field # fs) fields =
     (if length (PkgPath field) > 0 then fieldsMap (i + 1) fs fields
      else fieldsMap (i + 1) fs (fields(fieldKey field \<mapsto> i)))"

text \<open>
  \<^verbatim>\<open>unmarshalList\<close> and \<^verbatim>\<open>unmarshalDict\<close> mutate their target; the model returns
  the new value of the target (on an error, only the error). The state of the dict
  loop is the list of the struct's fields. \<^verbatim>\<open>val.Set(reflect.New(elem.Elem()))\<close>
  panics unless \<^verbatim>\<open>elem\<close> is a pointer type, and storing a \<^verbatim>\<open>*RawMessage\<close> panics
  unless the target has exactly that type. A map target has no fields.
\<close>

fun unmarshalList :: "RawMessage list \<Rightarrow> gval \<Rightarrow> error + gval"
  and unmarshalList_loop :: "nat \<Rightarrow> RawMessage list \<Rightarrow> gtype \<Rightarrow> gval list \<Rightarrow> error + gval list"
  and unmarshalDict :: "(string \<times> RawMessage) list \<Rightarrow> gval \<Rightarrow> error + gval"
  and unmarshalDict_loop :: "(string \<times> RawMessage) list \<Rightarrow> (string \<rightharpoonup> nat) \<Rightarrow>
        (gtype StructField \<times> gval) list \<Rightarrow> error + (gtype StructField \<times> gval) list"
where
  "unmarshalList l v =
     (case v of
        VSlice elem vs \<Rightarrow>
          (case unmarshalList_loop 0 l elem vs of
             Inl err \<Rightarrow> Inl err
           | Inr vs' \<Rightarrow> Inr (VSlice elem vs'))
      | _ \<Rightarrow> Inl (NotASlice (Kind (TypeOf v))))"
| "unmarshalList_loop i [] elem vs = Inr vs"
| "unmarshalList_loop i (RawMessage pod l d # rest) elem vs =
     (let vs1 = vs @ [Zero elem];
          val = vs1 ! i
      in case (if isRawMessagePtr elem then
                 (if elem = TPtr TRawMessage
                  then Inr (VPtr TRawMessage (Some (VRawMessage (RawMessage pod l d))))
                  else Inl PanicReflect)
               else if pod \<noteq> None then unmarshalPOD (the pod) val
               else if length l > 0 then unmarshalList l val
               else if length d > 0 then
                 (case elem of
                    TPtr t \<Rightarrow> unmarshalDict d (VPtr t (Some (Zero t)))
                  | _ \<Rightarrow> Inl PanicReflect)
               else Inr val) of
           Inl err \<Rightarrow> Inl err
         | Inr val' \<Rightarrow> unmarshalList_loop (i + 1) rest elem (vs1[i := val']))"
| "unmarshalDict d val =
     (let kind = Kind (TypeOf val) in
      if kind \<noteq> KPtr \<and> kind \<noteq> KMap then Inl (NotAPtrMap kind)
      else
        (case val of
           VPtr t None \<Rightarrow> Inl PanicReflect
         | VPtr t (Some v) \<Rightarrow>
             (case v of
                VStruct n fvs \<Rightarrow>
                  (case unmarshalDict_loop d (fieldsMap 0 (map fst fvs) Map.empty) fvs of
                     Inl err \<Rightarrow> Inl err
                   | Inr fvs' \<Rightarrow> Inr (VPtr t (Some (VStruct n fvs'))))
              | VRawMessage rm \<Rightarrow> Inl NotModelled
              | _ \<Rightarrow> Inl (NotAStruct (Kind (TypeOf v))))
         | _ \<Rightarrow>
             (case unmarshalDict_loop d Map.empty [] of
                Inl err \<Rightarrow> Inl err
              | Inr _ \<Rightarrow> Inr val)))"
| "unmarshalDict_loop [] fields fvs = Inr fvs"
| "unmarshalDict_loop ((k, RawMessage pod l d) # rest) fields fvs =
     (case fields k of
        None \<Rightarrow> unmarshalDict_loop rest fields fvs
      | Some i \<Rightarrow>
          (let f = fst (fvs ! i);
               field = snd (fvs ! i)
           in case (if isRawMessagePtr (TypeOf field) then
                      (if TypeOf field = TPtr TRawMessage
                       then Inr (VPtr TRawMessage (Some (VRawMessage (RawMessage pod l d))))
                       else Inl PanicReflect)
                    else if pod \<noteq> None then unmarshalPOD (the pod) field
                    else if length l > 0 then unmarshalList l field
                    else if length d > 0 then
                      (case TypeOf field of
                         TMap kt vt \<Rightarrow> unmarshalDict d (VMap kt vt [])
                       | TPtr t \<Rightarrow> unmarshalDict d (VPtr t (Some (Zero t)))
                       | _ \<Rightarrow> Inl PanicReflect)
                    else Inr field) of
                Inl err \<Rightarrow> Inl (FieldError k err)
              | Inr field' \<Rightarrow> unmarshalDict_loop rest fields (fvs[i := (f, field')])))"

section \<open>Projection: typed value to Generic Value\<close>

text \<open>
  The projecting functions return \<^verbatim>\<open>(rm *RawMessage, err error)\<close>: \<open>Inr None\<close> is
  the nil message. \<^verbatim>\<open>val.Elem()\<close> of a nil pointer is the zero \<^verbatim>\<open>Value\<close>, whose
  \<^verbatim>\<open>Type()\<close> panics; \<^verbatim>\<open>val.Interface().(*RawMessage)\<close> panics on a struct that is
  only named \<^verbatim>\<open>RawMessage\<close>.
\<close>

definition marshalPOD :: "gval \<Rightarrow> RawMessage option" where
  "marshalPOD val =
     (if val = Zero (TypeOf val) then None
      else Some (RawMessage (Some (ValueInterface val)) [] []))"

fun marshalList :: "gval \<Rightarrow> error + RawMessage option"
  and marshalList_loop :: "kind \<Rightarrow> gval list \<Rightarrow> RawMessage list \<Rightarrow> error + RawMessage list"
  and marshalDict :: "gval \<Rightarrow> error + RawMessage option"
  and marshalDict_loop :: "(gtype StructField \<times> gval) list \<Rightarrow> (string \<times> RawMessage) list \<Rightarrow>
        error + (string \<times> RawMessage) list"
where
  "marshalList val =
     (case val of
        VSlice elem vs \<Rightarrow>
          if length vs = 0 then Inr None
          else (case marshalList_loop (Kind elem) vs [] of
                  Inl err \<Rightarrow> Inl err
                | Inr l \<Rightarrow> Inr (Some (RawMessage None l [])))
      | VString s \<Rightarrow> if length s = 0 then Inr None else Inl PanicReflect
      | VMap kt vt es \<Rightarrow> if length es = 0 then Inr None else Inl PanicReflect
      | _ \<Rightarrow> Inl PanicReflect)"
| "marshalList_loop kind [] l = Inr l"
| "marshalList_loop kind (x # xs) l =
     (case (case kind of
              KInt64 \<Rightarrow> Inr (marshalPOD x)
            | KUint64 \<Rightarrow> Inr (marshalPOD x)
            | KString \<Rightarrow> Inr (marshalPOD x)
            | KSlice \<Rightarrow> marshalList x
            | KPtr \<Rightarrow> marshalDict x
            | _ \<Rightarrow> Inr None) of
        Inl err \<Rightarrow> Inl err
      | Inr None \<Rightarrow> marshalList_loop kind xs l
      | Inr (Some m) \<Rightarrow> marshalList_loop kind xs (l @ [m]))"
| "marshalDict val =
     (case val of
        VPtr t None \<Rightarrow> Inl PanicReflect
      | VPtr t (Some v) \<Rightarrow>
          (case v of
             VStruct n fvs \<Rightarrow>
               if TypeName (TypeOf v) = ''RawMessage'' then Inl PanicTypeAssertion
               else
                 (case marshalDict_loop fvs [] of
                    Inl err \<Rightarrow> Inl err
                  | Inr d \<Rightarrow> Inr (Some (RawMessage None [] d)))
           | VRawMessage rm \<Rightarrow> Inr (Some rm)
           | _ \<Rightarrow> Inl (NotAStruct (Kind (TypeOf v))))
      | _ \<Rightarrow> Inl PanicReflect)"
| "marshalDict_loop [] d = Inr d"
| "marshalDict_loop ((field, fv) # rest) d =
     (if length (PkgPath field) > 0 then marshalDict_loop rest d
      else
        let key = fieldKey field in
        case (case Kind (Type field) of
                KInt64 \<Rightarrow> Inr (marshalPOD fv)
              | KUint64 \<Rightarrow> Inr (marshalPOD fv)
              | KString \<Rightarrow> Inr (marshalPOD fv)
              | KSlice \<Rightarrow> marshalList fv
              | KPtr \<Rightarrow> marshalDict fv
              | _ \<Rightarrow> Inr None) of
          Inl err \<Rightarrow> Inl err
        | Inr None \<Rightarrow> marshalDict_loop rest d
        | Inr (Some m) \<Rightarrow> marshalDict_loop rest (d @ [(key, m)]))"

section \<open>The switches of the loops\<close>

text \<open>The switch of each injection loop, as a function of its own: \<open>injectField\<close> is the one of
  \<^verbatim>\<open>unmarshalDict\<close>, \<open>injectElem\<close> the one of \<^verbatim>\<open>unmarshalList\<close>.\<close>

definition injectField :: "RawMessage \<Rightarrow> gval \<Rightarrow> error + gval" where
  "injectField rm field =
     (if isRawMessagePtr (TypeOf field) then
        (if TypeOf field = TPtr TRawMessage
         then Inr (VPtr TRawMessage (Some (VRawMessage rm)))
         else Inl PanicReflect)
      else if POD rm \<noteq> None then unmarshalPOD (the (POD rm)) field
      else if length (L rm) > 0 then unmarshalList (L rm) field
      else if length (D rm) > 0 then
        (case TypeOf field of
           TMap kt vt \<Rightarrow> unmarshalDict (D rm) (VMap kt vt [])
         | TPtr t \<Rightarrow> unmarshalDict (D rm) (VPtr t (Some (Zero t)))
         | _ \<Rightarrow> Inl PanicReflect)
      else Inr field)"

definition injectElem :: "RawMessage \<Rightarrow> gtype \<Rightarrow> gval \<Rightarrow> error + gval" where
  "injectElem rm elem val =
     (if isRawMessagePtr elem then
        (if elem = TPtr TRawMessage
         then Inr (VPtr TRawMessage (Some (VRawMessage rm)))
         else Inl PanicReflect)
      else if POD rm \<noteq> None then unmarshalPOD (the (POD rm)) val
      else if length (L rm) > 0 then unmarshalList (L rm) val
      else if length (D rm) > 0 then
        (case elem of
           TPtr t \<Rightarrow> unmarshalDict (D rm) (VPtr t (Some (Zero t)))
         | _ \<Rightarrow> Inl PanicReflect)
      else Inr val)"

text \<open>The switch of the two projection loops (the same in \<^verbatim>\<open>marshalList\<close> and
  \<^verbatim>\<open>marshalDict\<close>), and the kinds it has a case for.\<close>

definition projectValue :: "kind \<Rightarrow> gval \<Rightarrow> error + RawMessage option" where
  "projectValue k v =
     (case k of
        KInt64 \<Rightarrow> Inr (marshalPOD v)
      | KUint64 \<Rightarrow> Inr (marshalPOD v)
      | KString \<Rightarrow> Inr (marshalPOD v)
      | KSlice \<Rightarrow> marshalList v
      | KPtr \<Rightarrow> marshalDict v
      | _ \<Rightarrow> Inr None)"

definition supportedKind :: "kind \<Rightarrow> bool" where
  "supportedKind k \<longleftrightarrow> k = KInt64 \<or> k = KUint64 \<or> k = KString \<or> k = KSlice \<or> k = KPtr"

section \<open>Predicates of the statements\<close>

text \<open>
  The trees the encoder writes in full: every node is exactly one of a scalar, a non-empty
  list and a non-empty dict; a signed scalar is negative (the decoder reads a token
  without \<^verbatim>\<open>-\<close> as unsigned); a string is shorter than \<open>2 ^ 63\<close> bytes, as every Go
  string is.
\<close>

fun wellFormedPOD :: "pod \<Rightarrow> bool" where
  "wellFormedPOD (PInt64 i) \<longleftrightarrow> sint i < 0"
| "wellFormedPOD (PUint64 u) \<longleftrightarrow> True"
| "wellFormedPOD (PString s) \<longleftrightarrow> length s < 2 ^ 63"
| "wellFormedPOD (POther k) \<longleftrightarrow> False"

fun wellFormed :: "RawMessage \<Rightarrow> bool" where
  "wellFormed (RawMessage pod l d) \<longleftrightarrow>
     (case pod of
        Some p \<Rightarrow> wellFormedPOD p \<and> l = [] \<and> d = []
      | None \<Rightarrow>
          if l \<noteq> [] then d = [] \<and> (\<forall>m\<in>set l. wellFormed m)
          else d \<noteq> [] \<and> (\<forall>kv\<in>set d. length (fst kv) < 2 ^ 63 \<and> wellFormed (snd kv)))"

text \<open>The wire keys of a struct type: the keys of its exported fields.\<close>

definition wireKeys :: "gtype StructField list \<Rightarrow> string list" where
  "wireKeys fs = map fieldKey (filter (\<lambda>f. PkgPath f = []) fs)"

text \<open>
  The values projection keeps in full: a non-zero integer, a non-empty string, a non-empty
  slice of such values, and a non-nil pointer to a record (not named \<^verbatim>\<open>RawMessage\<close>)
  with at least one exported field, pairwise distinct wire keys, every exported field
  such a value and every unexported field zero. \<open>faithfulRecord\<close> is the condition on
  the record itself; \<open>roundTrips\<close> says that the loops' switches project a value and
  inject the result into a zero value of its type.
\<close>

fun faithful :: "gval \<Rightarrow> bool" where
  "faithful (VInt64 i) \<longleftrightarrow> i \<noteq> 0"
| "faithful (VUint64 u) \<longleftrightarrow> u \<noteq> 0"
| "faithful (VString s) \<longleftrightarrow> s \<noteq> []"
| "faithful (VSlice t vs) \<longleftrightarrow> vs \<noteq> [] \<and> (\<forall>v\<in>set vs. TypeOf v = t \<and> faithful v)"
| "faithful (VPtr t (Some (VStruct n fvs))) \<longleftrightarrow>
     t = TStruct n (map fst fvs) \<and> n \<noteq> ''RawMessage'' \<and>
     wireKeys (map fst fvs) \<noteq> [] \<and> distinct (wireKeys (map fst fvs)) \<and>
     (\<forall>fv\<in>set fvs. TypeOf (snd fv) = Type (fst fv) \<and>
        (if PkgPath (fst fv) = [] then faithful (snd fv) else snd fv = Zero (Type (fst fv))))"
| "faithful _ \<longleftrightarrow> False"

definition faithfulRecord :: "string \<Rightarrow> (gtype StructField \<times> gval) list \<Rightarrow> bool" where
  "faithfulRecord n fvs \<longleftrightarrow>
     n \<noteq> ''RawMessage'' \<and> distinct (wireKeys (map fst fvs)) \<and>
     (\<forall>fv\<in>set fvs. TypeOf (snd fv) = Type (fst fv) \<and>
        (if PkgPath (fst fv) = [] then faithful (snd fv) else snd fv = Zero (Type (fst fv))))"

definition roundTrips :: "gval \<Rightarrow> bool" where
  "roundTrips v \<longleftrightarrow>
     (\<exists>m. projectValue (Kind (TypeOf v)) v = Inr (Some m) \<and>
          injectField m (Zero (TypeOf v)) = Inr v \<and>
          injectElem m (TypeOf v) (Zero (TypeOf v)) = Inr v)"

text \<open>
  The record types of the package's test (\<^verbatim>\<open>file\<close>, \<^verbatim>\<open>info\<close>, \<^verbatim>\<open>MetaInfo\<close>) and a
  \<^verbatim>\<open>MetaInfo\<close> value with every field set.
\<close>

definition fileType :: gtype where
  "fileType = TStruct ''file''
     [StructField ''Length'' [] [(''ben'', ''length'')] TUint64,
      StructField ''Path'' [] [(''ben'', ''path'')] (TSlice TString),
      StructField ''Md5sum'' [] [(''ben'', ''md5sum'')] TString]"

definition infoType :: gtype where
  "infoType = TStruct ''info''
     [StructField ''PieceLength'' [] [(''ben'', ''piece length'')] TUint64,
      StructField ''Name'' [] [(''ben'', ''name'')] TString,
      StructField ''Length'' [] [(''ben'', ''length'')] TUint64,
      StructField ''Md5sum'' [] [(''ben'', ''md5sum'')] TString,
      StructField ''Files'' [] [(''ben'', ''files'')] (TSlice (TPtr fileType))]"

definition metaInfoFields :: "gtype StructField list" where
  "metaInfoFields =
     [StructField ''Info'' [] [(''ben'', ''info'')] (TPtr infoType),
      StructField ''Announce'' [] [(''ben'', ''announce'')] TString,
      StructField ''AnnounceList'' [] [(''ben'', ''announce-list'')] (TSlice (TSlice TString)),
      StructField ''CreationDate'' [] [(''ben'', ''creation date'')] TInt64,
      StructField ''Comment'' [] [(''ben'', ''comment'')] TString]"

definition structOf :: "gtype \<Rightarrow> gval list \<Rightarrow> gval" where
  "structOf t vs = (case t of TStruct n fs \<Rightarrow> VStruct n (zip fs vs) | _ \<Rightarrow> Zero t)"

definition exampleFile :: gval where
  "exampleFile = structOf fileType
     [VUint64 7, VSlice TString [VString ''a'', VString ''bc''], VString ''m'']"

definition exampleInfo :: gval where
  "exampleInfo = structOf infoType
     [VUint64 16, VString ''n'', VUint64 9, VString ''s'',
      VSlice (TPtr fileType) [VPtr fileType (Some exampleFile)]]"

definition exampleMetaInfo :: "(gtype StructField \<times> gval) list" where
  "exampleMetaInfo = zip metaInfoFields
     [VPtr infoType (Some exampleInfo), VString ''url'',
      VSlice (TSlice TString) [VSlice TString [VString ''x''],
                               VSlice TString [VString ''y'', VString ''z'']],
      VInt64 (- 5), VString ''c'']"

section \<open>Properties of the decoder\<close>

subsection \<open>Equations by the first byte\<close>

lemma decodeRawMessage_Nil: "decodeRawMessage [] = Inl EOF"
  by (simp add: decodeRawMessage.simps)

lemmas decodeRawMessage_Cons = decodeRawMessage.simps [of "c # r1", simplified list.case] for c r1

lemma decodeList_Nil: "decodeList [] l = Inl EOF"
  by (simp add: decodeList.simps)

lemma decodeList_Cons:
  "decodeList (c # r) l =
     (if c = CHR ''e'' then Inr (l, r)
      else (case decodeRawMessage (c # r) of
              Inl err \<Rightarrow> Inl err
            | Inr (ln, r2) \<Rightarrow> decodeList r2 (l @ [ln])))"
  by (simp add: decodeList.simps [of "c # r"])

lemma decodeDict_Nil: "decodeDict [] d = Inl EOF"
  by (simp add: decodeDict.simps)

lemma decodeDict_Cons:
  "decodeDict (c # r) d =
     (if c = CHR ''e'' then Inr (d, r)
      else (case decodeRawMessage (c # r) of
              Inl err \<Rightarrow> Inl err
            | Inr (k, r2) \<Rightarrow>
                (case decodeRawMessage r2 of
                   Inl err \<Rightarrow> Inl err
                 | Inr (v, r3) \<Rightarrow>
                     (case POD k of
                        Some (PString s) \<Rightarrow> decodeDict r3 (d @ [(s, v)])
                      | _ \<Rightarrow> Inl PanicTypeAssertion))))"
  by (simp add: decodeDict.simps [of "c # r"])

lemmas decode_eval = decodeRawMessage_Nil decodeRawMessage_Cons decodeList_Nil decodeList_Cons
  decodeDict_Nil decodeDict_Cons Decode_def isDigit_def intBuf_def strBuf_def ParseUint_def
  ParseInt_def ReadFull_def maxUint64_def Let_def

subsection \<open>Integer tokens and faults\<close>

lemma intBuf_loop_token:
  "\<forall>c\<in>set tok. (c = CHR ''-'' \<or> isDigit c) \<and> c \<noteq> delim \<Longrightarrow>
     intBuf_loop (tok @ delim # rest) delim buf = Inr (buf @ tok, rest)"
proof (induction tok arbitrary: buf)
  case Nil
  show ?case by simp
next
  case (Cons c tok)
  from Cons.prems have c: "c = CHR ''-'' \<or> isDigit c" "c \<noteq> delim"
    and rest: "\<forall>c\<in>set tok. (c = CHR ''-'' \<or> isDigit c) \<and> c \<noteq> delim"
    by simp_all
  from Cons.IH [OF rest, of "buf @ [c]"] c show ?case by simp
qed

lemma isDigit_not_e: "isDigit c \<Longrightarrow> c \<noteq> CHR ''e''"
  by (auto simp: isDigit_def)

lemma isDigit_not_colon: "isDigit c \<Longrightarrow> c \<noteq> CHR '':''"
  by (auto simp: isDigit_def)

lemma isDigit_not_minus: "isDigit c \<Longrightarrow> c \<noteq> CHR ''-''"
  by (auto simp: isDigit_def)

lemma isDigit_not_i: "isDigit c \<Longrightarrow> c \<noteq> CHR ''i''"
  by (auto simp: isDigit_def)

lemma intBuf_token_e:
  assumes "\<forall>c\<in>set tok. c = CHR ''-'' \<or> isDigit c"
  shows "intBuf (tok @ CHR ''e'' # rest) (CHR ''e'') = Inr (tok, rest)"
proof -
  have "\<forall>c\<in>set tok. (c = CHR ''-'' \<or> isDigit c) \<and> c \<noteq> CHR ''e''"
    using assms isDigit_not_e by fastforce
  from intBuf_loop_token [OF this, of rest "[]"] show ?thesis
    by (simp add: intBuf_def)
qed

lemma intBuf_loop_inv:
  "intBuf_loop r delim buf = Inr (s, r') \<Longrightarrow>
     \<exists>tok. r = tok @ delim # r' \<and> s = buf @ tok \<and>
           (\<forall>c\<in>set tok. (c = CHR ''-'' \<or> isDigit c) \<and> c \<noteq> delim)"
proof (induction r arbitrary: buf)
  case Nil
  then show ?case by simp
next
  case (Cons c r)
  show ?case
  proof (cases "c = delim")
    case True
    with Cons.prems have "s = buf" "r' = r" by simp_all
    with True show ?thesis by simp
  next
    case False
    with Cons.prems have ok: "c = CHR ''-'' \<or> isDigit c"
      and rec: "intBuf_loop r delim (buf @ [c]) = Inr (s, r')"
      by (simp_all split: if_splits)
    from Cons.IH [OF rec] obtain tok where t: "r = tok @ delim # r'" "s = (buf @ [c]) @ tok"
      "\<forall>c\<in>set tok. (c = CHR ''-'' \<or> isDigit c) \<and> c \<noteq> delim"
      by blast
    have "c # r = (c # tok) @ delim # r' \<and> s = buf @ (c # tok) \<and>
           (\<forall>c\<in>set (c # tok). (c = CHR ''-'' \<or> isDigit c) \<and> c \<noteq> delim)"
      using t ok False by simp
    then show ?thesis by blast
  qed
qed

lemma decoded_integer:
  assumes "decodeRawMessage (CHR ''i'' # r) = Inr (m, r')"
  shows "\<exists>tok. r = tok @ CHR ''e'' # r' \<and> tok \<noteq> [] \<and>
           (if hd tok = CHR ''-''
            then \<exists>i. ParseInt tok = Inr i \<and> m = RawMessage (Some (PInt64 i)) [] []
            else \<exists>u. ParseUint tok = Inr u \<and> m = RawMessage (Some (PUint64 (word_of_nat u))) [] [])"
proof -
  have ni: "\<not> isDigit (CHR ''i'')" by (simp add: isDigit_def)
  from assms ni obtain intbuf r2 where ib: "intBuf r (CHR ''e'') = Inr (intbuf, r2)"
    by (auto simp: decodeRawMessage_Cons split: sum.splits)
  from assms ni ib obtain c0 tl where ne: "intbuf = c0 # tl"
    by (cases intbuf) (auto simp: decodeRawMessage_Cons)
  from assms ni ib ne have res:
    "(if c0 = CHR ''-''
      then (case ParseInt intbuf of
              Inl err \<Rightarrow> Inl err
            | Inr i \<Rightarrow> Inr (RawMessage (Some (PInt64 i)) [] [], r2))
      else (case ParseUint intbuf of
              Inl err \<Rightarrow> Inl err
            | Inr u \<Rightarrow> Inr (RawMessage (Some (PUint64 (word_of_nat u))) [] [], r2))) = Inr (m, r')"
    by (simp add: decodeRawMessage_Cons split: if_splits)
  then have r2: "r2 = r'" by (auto split: if_splits sum.splits)
  from ib [unfolded intBuf_def] intBuf_loop_inv [of r "CHR ''e''" "[]" intbuf r2]
  have split: "r = intbuf @ CHR ''e'' # r2" by auto
  from res ne have val:
    "if hd intbuf = CHR ''-''
     then \<exists>i. ParseInt intbuf = Inr i \<and> m = RawMessage (Some (PInt64 i)) [] []
     else \<exists>u. ParseUint intbuf = Inr u \<and> m = RawMessage (Some (PUint64 (word_of_nat u))) [] []"
    by (auto split: if_splits sum.splits)
  from split r2 ne val show ?thesis by blast
qed

text \<open>
  Claim C3. Whenever the decoder returns a value for an input that starts with \<^verbatim>\<open>i\<close>,
  the input is \<^verbatim>\<open>i<token>e\<close> with a non-empty token, and the value is the signed 64-bit
  scalar \<open>ParseInt\<close> gives when the token starts with \<^verbatim>\<open>-\<close>, the unsigned 64-bit
  scalar \<open>ParseUint\<close> gives otherwise. Conversely, on a non-empty token of \<^verbatim>\<open>-\<close> and
  digits the decoder returns what that parser returns. \<^verbatim>\<open>i3e\<close> decodes to unsigned 3
  and \<^verbatim>\<open>i-3e\<close> to signed -3.
\<close>

theorem integer_token_sign:
  "(\<forall>r m r'. decodeRawMessage (CHR ''i'' # r) = Inr (m, r') \<longrightarrow>
      (\<exists>tok. r = tok @ CHR ''e'' # r' \<and> tok \<noteq> [] \<and>
         (if hd tok = CHR ''-''
          then \<exists>i. ParseInt tok = Inr i \<and> m = RawMessage (Some (PInt64 i)) [] []
          else \<exists>u. ParseUint tok = Inr u \<and>
                 m = RawMessage (Some (PUint64 (word_of_nat u))) [] [])))
   \<and> (\<forall>tok rest. tok \<noteq> [] \<and> (\<forall>c\<in>set tok. c = CHR ''-'' \<or> isDigit c) \<longrightarrow>
      decodeRawMessage (CHR ''i'' # tok @ CHR ''e'' # rest) =
        (if hd tok = CHR ''-''
         then (case ParseInt tok of
                 Inl err \<Rightarrow> Inl err
               | Inr i \<Rightarrow> Inr (RawMessage (Some (PInt64 i)) [] [], rest))
         else (case ParseUint tok of
                 Inl err \<Rightarrow> Inl err
               | Inr u \<Rightarrow> Inr (RawMessage (Some (PUint64 (word_of_nat u))) [] [], rest))))
   \<and> Decode ''i3e'' = Inr (RawMessage (Some (PUint64 3)) [] [])
   \<and> Decode ''i-3e'' = Inr (RawMessage (Some (PInt64 (- 3))) [] [])"
proof (intro conjI)
  show "\<forall>r m r'. decodeRawMessage (CHR ''i'' # r) = Inr (m, r') \<longrightarrow>
      (\<exists>tok. r = tok @ CHR ''e'' # r' \<and> tok \<noteq> [] \<and>
         (if hd tok = CHR ''-''
          then \<exists>i. ParseInt tok = Inr i \<and> m = RawMessage (Some (PInt64 i)) [] []
          else \<exists>u. ParseUint tok = Inr u \<and>
                 m = RawMessage (Some (PUint64 (word_of_nat u))) [] []))"
    by (intro allI impI) (rule decoded_integer)
next
  show "\<forall>tok rest. tok \<noteq> [] \<and> (\<forall>c\<in>set tok. c = CHR ''-'' \<or> isDigit c) \<longrightarrow>
      decodeRawMessage (CHR ''i'' # tok @ CHR ''e'' # rest) =
        (if hd tok = CHR ''-''
         then (case ParseInt tok of
                 Inl err \<Rightarrow> Inl err
               | Inr i \<Rightarrow> Inr (RawMessage (Some (PInt64 i)) [] [], rest))
         else (case ParseUint tok of
                 Inl err \<Rightarrow> Inl err
               | Inr u \<Rightarrow> Inr (RawMessage (Some (PUint64 (word_of_nat u))) [] [], rest)))"
  proof (intro allI impI)
    fix tok rest
    assume a: "tok \<noteq> [] \<and> (\<forall>c\<in>set tok. c = CHR ''-'' \<or> isDigit c)"
    then obtain c0 tok' where tok: "tok = c0 # tok'" by (cases tok) auto
    have ib: "intBuf (tok @ CHR ''e'' # rest) (CHR ''e'') = Inr (tok, rest)"
      using a by (intro intBuf_token_e) simp
    have ni: "\<not> isDigit (CHR ''i'')" by (simp add: isDigit_def)
    show "decodeRawMessage (CHR ''i'' # tok @ CHR ''e'' # rest) =
          (if hd tok = CHR ''-''
           then (case ParseInt tok of
                   Inl err \<Rightarrow> Inl err
                 | Inr i \<Rightarrow> Inr (RawMessage (Some (PInt64 i)) [] [], rest))
           else (case ParseUint tok of
                   Inl err \<Rightarrow> Inl err
                 | Inr u \<Rightarrow> Inr (RawMessage (Some (PUint64 (word_of_nat u))) [] [], rest)))"
      using ni ib tok by (simp add: decodeRawMessage_Cons)
  qed
next
  show "Decode ''i3e'' = Inr (RawMessage (Some (PUint64 3)) [] [])"
    by (simp add: decode_eval)
next
  show "Decode ''i-3e'' = Inr (RawMessage (Some (PInt64 (- 3))) [] [])"
    by (simp add: decode_eval)
qed

theorem integer_token_sign_witness:
  "decodeRawMessage ''i-42e4:spam'' = Inr (RawMessage (Some (PInt64 (- 42))) [] [], ''4:spam'')"
proof -
  have h: "''-42'' \<noteq> [] \<and> (\<forall>c\<in>set ''-42''. c = CHR ''-'' \<or> isDigit c)"
    by (simp add: isDigit_def)
  have p: "ParseInt ''-42'' = Inr (- 42)"
    by (simp add: ParseInt_def ParseUint_def isDigit_def maxUint64_def)
  from integer_token_sign [THEN conjunct2, THEN conjunct1, rule_format, OF h, of "''4:spam''"] p
  show ?thesis by simp
qed

text \<open>
  Claim C4. A dict whose key position holds a well-formed integer (or list) does not
  make the decoder return an error: the type assertion \<^verbatim>\<open>k.POD.(string)\<close> panics.
\<close>

theorem dict_key_type_assertion_panics:
  "Decode ''di1ei2ee'' = Inl PanicTypeAssertion \<and> Decode ''dlei2ee'' = Inl PanicTypeAssertion"
  by (simp add: decode_eval)

text \<open>
  Claim C9. On the input \<^verbatim>\<open>ie\<close> the integer token is empty and \<^verbatim>\<open>intbuf[0]\<close>
  is an index out of range: the decoder panics instead of returning a value or an error.
\<close>

theorem empty_integer_token_panics:
  "Decode ''ie'' = Inl PanicIndexOutOfRange \<and> is_panic PanicIndexOutOfRange"
  by (simp add: decode_eval)

section \<open>Decoding what the encoder wrote\<close>

subsection \<open>Decimal digits\<close>

lemma of_char_digit: "d < 10 \<Longrightarrow> of_char (digit d) = 48 + d"
  by (simp add: digit_def)

lemma isDigit_digit: "d < 10 \<Longrightarrow> isDigit (digit d)"
  by (simp add: isDigit_def of_char_digit)

lemma digit_eq_zero: "d < 10 \<Longrightarrow> digit d = CHR ''0'' \<longleftrightarrow> d = 0"
  by (simp add: digit_def char_of_eq_iff take_bit_eq_mod)

lemma digit_chars:
  "digit 0 = CHR ''0''" "digit 1 = CHR ''1''" "digit 2 = CHR ''2''" "digit 3 = CHR ''3''"
  "digit 4 = CHR ''4''" "digit 5 = CHR ''5''" "digit 6 = CHR ''6''" "digit 7 = CHR ''7''"
  "digit 8 = CHR ''8''" "digit 9 = CHR ''9''"
  by (simp_all add: digit_def char_of_eq_iff)

lemma showNat_digits: "\<forall>c\<in>set (showNat n). isDigit c"
proof (induction n rule: showNat.induct)
  case (1 n)
  show ?case
  proof (cases "n < 10")
    case True
    then show ?thesis by (simp add: showNat.simps [of n] isDigit_digit)
  next
    case False
    with 1 show ?thesis by (simp add: showNat.simps [of n] isDigit_digit)
  qed
qed

lemma showNat_nonempty: "showNat n \<noteq> []"
  by (cases "n < 10") (simp_all add: showNat.simps [of n])

lemma hd_showNat_zero: "hd (showNat n) = CHR ''0'' \<longleftrightarrow> n = 0"
proof (induction n rule: showNat.induct)
  case (1 n)
  show ?case
  proof (cases "n < 10")
    case True
    then show ?thesis by (simp add: showNat.simps [of n] digit_eq_zero)
  next
    case False
    then have "n div 10 \<noteq> 0" by simp
    with 1 False show ?thesis by (simp add: showNat.simps [of n] showNat_nonempty)
  qed
qed

lemma ParseUint_loop_append:
  "ParseUint_loop base (xs @ ys) n =
     (case ParseUint_loop base xs n of Inl err \<Rightarrow> Inl err | Inr n' \<Rightarrow> ParseUint_loop base ys n')"
  by (induction xs arbitrary: n) (simp_all add: Let_def)

lemma ParseUint_loop_showNat: "n \<le> maxUint64 \<Longrightarrow> ParseUint_loop 10 (showNat n) 0 = Inr n"
proof (induction n rule: showNat.induct)
  case (1 n)
  show ?case
  proof (cases "n < 10")
    case True
    with "1.prems" show ?thesis
      by (simp add: showNat.simps [of n] isDigit_digit of_char_digit maxUint64_def)
  next
    case False
    from "1.prems" have "n div 10 \<le> maxUint64" by simp
    with 1 False have ih: "ParseUint_loop 10 (showNat (n div 10)) 0 = Inr (n div 10)" by simp
    have d: "n mod 10 < 10" by simp
    have c: "\<not> n div 10 \<ge> maxUint64 div 10 + 1" using "1.prems" by simp
    have e: "n div 10 * 10 + n mod 10 = n" by simp
    have step: "ParseUint_loop 10 [digit (n mod 10)] (n div 10) = Inr n"
      using "1.prems" c d e
      by (simp add: isDigit_digit of_char_digit [OF d] Let_def del: div_mult_mod_eq)
    show ?thesis
      using False
      by (simp add: showNat.simps [of n] ParseUint_loop_append ih step del: ParseUint_loop.simps)
  qed
qed

lemma ParseUint_showNat: "n \<le> maxUint64 \<Longrightarrow> ParseUint (showNat n) = Inr n"
proof (cases "n = 0")
  case True
  then show ?thesis by (simp add: ParseUint_def showNat.simps [of 0] digit_def char_of_eq_iff)
next
  case False
  assume le: "n \<le> maxUint64"
  obtain c s where cs: "showNat n = c # s" using showNat_nonempty [of n] by (cases "showNat n") auto
  with hd_showNat_zero [of n] False have "c \<noteq> CHR ''0''" by simp
  with cs ParseUint_loop_showNat [OF le] show ?thesis by (simp add: ParseUint_def)
qed

lemma strBuf_encoded:
  assumes "length s < 2 ^ 63"
  shows "strBuf (showNat (length s) @ CHR '':'' # s @ rest) = Inr (s, rest)"
proof -
  have "\<forall>c\<in>set (showNat (length s)). (c = CHR ''-'' \<or> isDigit c) \<and> c \<noteq> CHR '':''"
    using showNat_digits isDigit_not_colon by fastforce
  from intBuf_loop_token [OF this, of "s @ rest" "[]"]
  have ib: "intBuf (showNat (length s) @ CHR '':'' # s @ rest) (CHR '':'') =
              Inr (showNat (length s), s @ rest)"
    by (simp add: intBuf_def)
  have "length s \<le> maxUint64" using assms by (simp add: maxUint64_def)
  then have pu: "ParseUint (showNat (length s)) = Inr (length s)" by (rule ParseUint_showNat)
  show ?thesis using assms by (simp add: strBuf_def ib pu ReadFull_def)
qed

lemma decode_PString:
  assumes "length s < 2 ^ 63"
  shows "decodeRawMessage (encodePOD (PString s) @ rest) =
           Inr (RawMessage (Some (PString s)) [] [], rest)"
proof -
  obtain c cs where cs: "showNat (length s) = c # cs"
    using showNat_nonempty [of "length s"] by (cases "showNat (length s)") auto
  with showNat_digits [of "length s"] have dc: "isDigit c" by simp
  have "strBuf (c # cs @ CHR '':'' # s @ rest) = Inr (s, rest)"
    using strBuf_encoded [OF assms, of rest] cs by simp
  with dc cs show ?thesis by (simp add: decodeRawMessage_Cons)
qed

lemma decode_PUint64:
  "decodeRawMessage (encodePOD (PUint64 u) @ rest) = Inr (RawMessage (Some (PUint64 u)) [] [], rest)"
proof -
  let ?tok = "showNat (unat u)"
  obtain c cs where cs: "?tok = c # cs"
    using showNat_nonempty [of "unat u"] by (cases ?tok) auto
  have dig: "\<forall>c\<in>set ?tok. isDigit c" by (rule showNat_digits)
  then have h: "?tok \<noteq> [] \<and> (\<forall>c\<in>set ?tok. c = CHR ''-'' \<or> isDigit c)"
    using cs by simp
  have ib: "intBuf (?tok @ CHR ''e'' # rest) (CHR ''e'') = Inr (?tok, rest)"
    using h by (intro intBuf_token_e) simp
  from dig cs have "isDigit c" by simp
  then have nm: "c \<noteq> CHR ''-''" by (rule isDigit_not_minus)
  have "unat u \<le> maxUint64"
    using unsigned_less [of u, where 'a = nat] by (simp add: maxUint64_def)
  then have pu: "ParseUint ?tok = Inr (unat u)" by (rule ParseUint_showNat)
  have ni: "\<not> isDigit (CHR ''i'')" by (simp add: isDigit_def)
  show ?thesis
    using ni ib nm pu cs by (simp add: decodeRawMessage_Cons)
qed

lemma neg_word_of_nat_sint:
  fixes i :: "64 word"
  assumes "sint i < 0"
  shows "- (word_of_nat (nat (- sint i))) = i"
proof -
  have "word_of_nat (nat (- sint i)) = (word_of_int (- sint i) :: 64 word)"
    using assms by (simp add: word_of_int_nat)
  also have "\<dots> = - i" by simp
  finally show ?thesis by simp
qed

lemma decode_PInt64:
  assumes "sint i < 0"
  shows "decodeRawMessage (encodePOD (PInt64 i) @ rest) = Inr (RawMessage (Some (PInt64 i)) [] [], rest)"
proof -
  let ?k = "nat (- sint i)"
  let ?tok = "CHR ''-'' # showNat ?k"
  have dig: "\<forall>c\<in>set (showNat ?k). isDigit c" by (rule showNat_digits)
  then have h: "\<forall>c\<in>set ?tok. c = CHR ''-'' \<or> isDigit c" by simp
  have ib: "intBuf (?tok @ CHR ''e'' # rest) (CHR ''e'') = Inr (?tok, rest)"
    using h by (rule intBuf_token_e)
  have bound: "?k \<le> 2 ^ 63"
    using sint_ge [of i] by simp
  then have "?k \<le> maxUint64" by (simp add: maxUint64_def)
  then have pu: "ParseUint (showNat ?k) = Inr ?k" by (rule ParseUint_showNat)
  have pi: "ParseInt ?tok = Inr i"
    using bound neg_word_of_nat_sint [OF assms] by (simp add: ParseInt_def pu)
  have ni: "\<not> isDigit (CHR ''i'')" by (simp add: isDigit_def)
  have enc: "encodePOD (PInt64 i) @ rest = CHR ''i'' # ?tok @ CHR ''e'' # rest"
    using assms by (simp add: showInt_def)
  show ?thesis
    unfolding enc using ni ib pi by (simp add: decodeRawMessage_Cons)
qed

lemma decode_POD:
  "wellFormedPOD p \<Longrightarrow>
     decodeRawMessage (encodePOD p @ rest) = Inr (RawMessage (Some p) [] [], rest)"
  by (cases p) (simp_all only: wellFormedPOD.simps decode_PString decode_PUint64 decode_PInt64)

lemma encodePOD_first:
  "wellFormedPOD p \<Longrightarrow> \<exists>c cs. encodePOD p = c # cs \<and> c \<noteq> CHR ''e''"
proof (cases p)
  case (PString s)
  obtain c cs where cs: "showNat (length s) = c # cs"
    using showNat_nonempty [of "length s"] by (cases "showNat (length s)") auto
  with showNat_digits [of "length s"] have "isDigit c" by simp
  then have "c \<noteq> CHR ''e''" by (rule isDigit_not_e)
  with cs PString show ?thesis by simp
qed simp_all

lemma encodeRawMessage_first:
  "wellFormed m \<Longrightarrow> \<exists>c cs. encodeRawMessage m = c # cs \<and> c \<noteq> CHR ''e''"
proof (cases m)
  case (RawMessage pod l d)
  assume wf: "wellFormed m"
  show ?thesis
  proof (cases pod)
    case (Some p)
    with wf RawMessage encodePOD_first [of p] show ?thesis by simp
  next
    case None
    with wf RawMessage show ?thesis by (cases "l = []") simp_all
  qed
qed

lemma decodeList_encoded:
  assumes "\<And>m rest. m \<in> set l \<Longrightarrow> decodeRawMessage (encodeRawMessage m @ rest) = Inr (m, rest)"
    and "\<forall>m\<in>set l. wellFormed m"
  shows "decodeList (concat (map encodeRawMessage l) @ CHR ''e'' # rest) acc = Inr (acc @ l, rest)"
  using assms
proof (induction l arbitrary: acc)
  case Nil
  show ?case by (simp add: decodeList_Cons)
next
  case (Cons m l)
  from Cons.prems(2) have "wellFormed m" by simp
  then obtain c cs where cs: "encodeRawMessage m = c # cs" and ne: "c \<noteq> CHR ''e''"
    using encodeRawMessage_first by blast
  let ?tail = "concat (map encodeRawMessage l) @ CHR ''e'' # rest"
  have dm: "decodeRawMessage (c # cs @ ?tail) = Inr (m, ?tail)"
    using Cons.prems(1) [of m ?tail] cs by simp
  have ih: "decodeList ?tail (acc @ [m]) = Inr ((acc @ [m]) @ l, rest)"
    using Cons.prems by (intro Cons.IH) simp_all
  show ?case
    using ne dm ih cs by (simp add: decodeList_Cons)
qed

lemma decodeDict_encoded:
  assumes "\<And>kv rest. kv \<in> set d \<Longrightarrow>
             decodeRawMessage (encodeRawMessage (snd kv) @ rest) = Inr (snd kv, rest)"
    and "\<forall>kv\<in>set d. length (fst kv) < 2 ^ 63 \<and> wellFormed (snd kv)"
  shows "decodeDict
           (concat (map (\<lambda>kv. encodePOD (PString (fst kv)) @ encodeRawMessage (snd kv)) d)
              @ CHR ''e'' # rest) acc
         = Inr (acc @ d, rest)"
  using assms
proof (induction d arbitrary: acc)
  case Nil
  show ?case by (simp add: decodeDict_Cons)
next
  case (Cons kv d)
  obtain k v where kv: "kv = (k, v)" by (cases kv)
  from Cons.prems(2) kv have lk: "length k < 2 ^ 63" and wv: "wellFormed v" by simp_all
  let ?tail = "concat (map (\<lambda>kv. encodePOD (PString (fst kv)) @ encodeRawMessage (snd kv)) d)
                 @ CHR ''e'' # rest"
  have "wellFormedPOD (PString k)" using lk by simp
  then obtain c cs where cs: "encodePOD (PString k) = c # cs" and ne: "c \<noteq> CHR ''e''"
    using encodePOD_first by blast
  have dk: "decodeRawMessage (c # cs @ encodeRawMessage v @ ?tail) =
              Inr (RawMessage (Some (PString k)) [] [], encodeRawMessage v @ ?tail)"
    using decode_PString [OF lk, of "encodeRawMessage v @ ?tail"] cs
    by (simp del: encodePOD.simps)
  have dv: "decodeRawMessage (encodeRawMessage v @ ?tail) = Inr (v, ?tail)"
    using Cons.prems(1) [of kv ?tail] kv by simp
  have ih: "decodeDict ?tail (acc @ [(k, v)]) = Inr ((acc @ [(k, v)]) @ d, rest)"
    using Cons.prems by (intro Cons.IH) simp_all
  have "decodeDict (c # cs @ encodeRawMessage v @ ?tail) acc = Inr (acc @ (k, v) # d, rest)"
    using ne dk dv ih by (simp add: decodeDict_Cons)
  then show ?case using kv cs by (simp del: encodePOD.simps)
qed

lemma decode_encode:
  "wellFormed m \<Longrightarrow> decodeRawMessage (encodeRawMessage m @ rest) = Inr (m, rest)"
proof (induction m arbitrary: rest)
  case (RawMessage pod l d)
  show ?case
  proof (cases pod)
    case (Some p)
    with RawMessage.prems show ?thesis by (simp add: decode_POD)
  next
    case None
    have nl: "\<not> isDigit (CHR ''l'')" "\<not> isDigit (CHR ''d'')" by (simp_all add: isDigit_def)
    show ?thesis
    proof (cases "l = []")
      case False
      with None RawMessage.prems have d: "d = []" and wf: "\<forall>m\<in>set l. wellFormed m" by simp_all
      have "decodeList (concat (map encodeRawMessage l) @ CHR ''e'' # rest) [] = Inr ([] @ l, rest)"
        using RawMessage.IH(1) wf by (intro decodeList_encoded) simp_all
      with None False d nl show ?thesis by (simp add: decodeRawMessage_Cons)
    next
      case True
      with None RawMessage.prems have dne: "d \<noteq> []"
        and wf: "\<forall>kv\<in>set d. length (fst kv) < 2 ^ 63 \<and> wellFormed (snd kv)" by simp_all
      have "decodeDict
              (concat (map (\<lambda>kv. encodePOD (PString (fst kv)) @ encodeRawMessage (snd kv)) d)
                 @ CHR ''e'' # rest) []
            = Inr ([] @ d, rest)"
      proof (intro decodeDict_encoded wf)
        fix kv rest' assume "kv \<in> set d"
        with wf RawMessage.IH(2) [of kv "snd kv" rest']
        show "decodeRawMessage (encodeRawMessage (snd kv) @ rest') = Inr (snd kv, rest')"
          by (cases kv) auto
      qed
      with None True dne nl show ?thesis by (simp add: decodeRawMessage_Cons)
    qed
  qed
qed

text \<open>
  Claim C1, as stated, fails: the empty list \<^verbatim>\<open>le\<close> decodes to the message with no
  variant set, which the encoder writes as nothing; \<^verbatim>\<open>i010e\<close> is read in base 8 and
  written back as \<^verbatim>\<open>i8e\<close>, and \<^verbatim>\<open>i-0e\<close> is written back as \<^verbatim>\<open>i0e\<close>.
\<close>

theorem roundtrip_counterexample:
  "Decode ''le'' = Inr (RawMessage None [] []) \<and>
   encodeRawMessage (RawMessage None [] []) = [] \<and>
   Decode ''i010e'' = Inr (RawMessage (Some (PUint64 8)) [] []) \<and>
   encodeRawMessage (RawMessage (Some (PUint64 8)) [] []) = ''i8e'' \<and>
   Decode ''i-0e'' = Inr (RawMessage (Some (PInt64 0)) [] []) \<and>
   encodeRawMessage (RawMessage (Some (PInt64 0)) [] []) = ''i0e''"
proof (intro conjI)
  show "Decode ''le'' = Inr (RawMessage None [] [])"
    by (simp add: decode_eval)
  show "encodeRawMessage (RawMessage None [] []) = []"
    by simp
  show "Decode ''i010e'' = Inr (RawMessage (Some (PUint64 8)) [] [])"
    by (simp add: decode_eval)
  show "encodeRawMessage (RawMessage (Some (PUint64 8)) [] []) = ''i8e''"
    by code_simp
  show "Decode ''i-0e'' = Inr (RawMessage (Some (PInt64 0)) [] [])"
    by (simp add: decode_eval)
  show "encodeRawMessage (RawMessage (Some (PInt64 0)) [] []) = ''i0e''"
    by code_simp
qed

text \<open>
  Claim C1, amended. For every input \<open>b\<close> that is the encoding of a well-formed tree
  (no empty list or dict, hence integers and lengths in canonical decimal), decoding \<open>b\<close>
  returns that tree and re-encoding the result yields exactly \<open>b\<close>.
\<close>

theorem decode_encode_roundtrip:
  assumes "wellFormed m" and "b = encodeRawMessage m"
  shows "Decode b = Inr m \<and> map_sum id encodeRawMessage (Decode b) = Inr b"
proof -
  have "decodeRawMessage (encodeRawMessage m @ []) = Inr (m, [])"
    using assms(1) by (rule decode_encode)
  then have "Decode b = Inr m" using assms(2) by (simp add: Decode_def)
  then show ?thesis using assms(2) by simp
qed

theorem decode_encode_roundtrip_witness:
  "Decode ''d3:cow3:moo4:spam4:eggse'' =
     Inr (RawMessage None []
           [(''cow'', RawMessage (Some (PString ''moo'')) [] []),
            (''spam'', RawMessage (Some (PString ''eggs'')) [] [])]) \<and>
   map_sum id encodeRawMessage (Decode ''d3:cow3:moo4:spam4:eggse'') =
     Inr ''d3:cow3:moo4:spam4:eggse''"
proof -
  let ?m = "RawMessage None []
           [(''cow'', RawMessage (Some (PString ''moo'')) [] []),
            (''spam'', RawMessage (Some (PString ''eggs'')) [] [])]"
  have wf: "wellFormed ?m" by simp
  have enc: "''d3:cow3:moo4:spam4:eggse'' = encodeRawMessage ?m"
    by code_simp
  from decode_encode_roundtrip [OF wf enc] show ?thesis .
qed

section \<open>Properties of injection\<close>

lemma unmarshalDict_loop_Cons:
  "unmarshalDict_loop ((k, rm) # rest) fields fvs =
     (case fields k of
        None \<Rightarrow> unmarshalDict_loop rest fields fvs
      | Some i \<Rightarrow>
          (case injectField rm (snd (fvs ! i)) of
             Inl err \<Rightarrow> Inl (FieldError k err)
           | Inr field' \<Rightarrow> unmarshalDict_loop rest fields (fvs[i := (fst (fvs ! i), field')])))"
  by (cases rm)
    (simp add: injectField_def Let_def cong: option.case_cong sum.case_cong gtype.case_cong if_cong)

lemma unmarshalList_loop_Cons:
  "unmarshalList_loop i (rm # rest) elem vs =
     (case injectElem rm elem ((vs @ [Zero elem]) ! i) of
        Inl err \<Rightarrow> Inl err
      | Inr val' \<Rightarrow> unmarshalList_loop (i + 1) rest elem ((vs @ [Zero elem])[i := val']))"
  by (cases rm)
    (simp add: injectElem_def Let_def cong: option.case_cong sum.case_cong gtype.case_cong if_cong)

lemmas unmarshal_loop_simps = unmarshalDict_loop.simps(1) unmarshalDict_loop_Cons
  unmarshalList_loop.simps(1) unmarshalList_loop_Cons

declare unmarshalList.simps [simp del] unmarshalDict.simps [simp del]
  unmarshalList_loop.simps [simp del] unmarshalDict_loop.simps [simp del]

lemma unmarshalDict_loop_filter:
  "unmarshalDict_loop d fields fvs =
     unmarshalDict_loop (filter (\<lambda>kv. fields (fst kv) \<noteq> None) d) fields fvs"
proof (induction d arbitrary: fvs)
  case Nil
  show ?case by simp
next
  case (Cons kv d)
  obtain k rm where kv: "kv = (k, rm)" by (cases kv)
  show ?case
  proof (cases "fields k")
    case None
    with kv Cons.IH [of fvs] show ?thesis by (simp add: unmarshalDict_loop_Cons)
  next
    case (Some i)
    show ?thesis
    proof (cases "injectField rm (snd (fvs ! i))")
      case (Inl err)
      with kv Some show ?thesis by (simp add: unmarshalDict_loop_Cons)
    next
      case (Inr field')
      with kv Some Cons.IH [of "fvs[i := (fst (fvs ! i), field')]"] show ?thesis
        by (simp add: unmarshalDict_loop_Cons)
    qed
  qed
qed

lemma fieldsMap_eq_None:
  "fieldsMap i fs m k = None \<longleftrightarrow> m k = None \<and> k \<notin> set (wireKeys fs)"
  by (induction fs arbitrary: i m) (auto simp: wireKeys_def)

lemma unmarshalDict_struct:
  "unmarshalDict d (VPtr t (Some (VStruct n fvs))) =
     (case unmarshalDict_loop d (fieldsMap 0 (map fst fvs) Map.empty) fvs of
        Inl err \<Rightarrow> Inl err
      | Inr fvs' \<Rightarrow> Inr (VPtr t (Some (VStruct n fvs'))))"
  by (simp add: unmarshalDict.simps)

lemma unmarshalDict_loop_no_fields: "unmarshalDict_loop d Map.empty fvs = Inr fvs"
  by (induction d) (auto simp: unmarshal_loop_simps)

lemma unmarshalDict_map: "unmarshalDict d (VMap kt vt es) = Inr (VMap kt vt es)"
  by (simp add: unmarshalDict.simps unmarshalDict_loop_no_fields)

text \<open>
  Claim C6. An unsigned wire integer is stored into an \<^verbatim>\<open>int64\<close> target with its 64 bits
  unchanged, whatever its value; a signed wire integer into a \<^verbatim>\<open>uint64\<close> target, and
  every other pair of different kinds, returns an error: \<open>MismatchedType\<close>, or
  \<open>NotAPOD\<close> when the wire value is no scalar at all.
\<close>

theorem unmarshalPOD_kinds:
  "(\<forall>u old. unmarshalPOD (PUint64 u) (VInt64 old) = Inr (VInt64 u)) \<and>
   (\<forall>i old. unmarshalPOD (PInt64 i) (VUint64 old) = Inl (MismatchedType KUint64 KInt64)) \<and>
   (\<forall>pod v. podKind pod \<noteq> Kind (TypeOf v) \<and> \<not> (Kind (TypeOf v) = KInt64 \<and> podKind pod = KUint64) \<longrightarrow>
      unmarshalPOD pod v =
        Inl (if isPOD (podKind pod) then MismatchedType (Kind (TypeOf v)) (podKind pod)
             else NotAPOD (podKind pod)))"
  by (simp add: unmarshalPOD_def isPOD_def Let_def)

theorem unmarshalPOD_kinds_witness:
  "unmarshalPOD (PString ''spam'') (VInt64 0) = Inl (MismatchedType KInt64 KString) \<and>
   unmarshalPOD (PUint64 (- 1)) (VInt64 0) = Inr (VInt64 (- 1))"
proof -
  have h: "podKind (PString ''spam'') \<noteq> Kind (TypeOf (VInt64 0)) \<and>
           \<not> (Kind (TypeOf (VInt64 0)) = KInt64 \<and> podKind (PString ''spam'') = KUint64)"
    by simp
  from unmarshalPOD_kinds [THEN conjunct2, THEN conjunct2, rule_format, OF h]
    unmarshalPOD_kinds [THEN conjunct1, rule_format, of "- 1" 0]
  show ?thesis by (simp add: isPOD_def)
qed

text \<open>
  Claim C7. Injecting a dict into a struct gives the result of injecting only the entries
  whose key is a wire key of the struct: an entry with any other key is skipped, it raises
  no error, and the entries after it are injected as if it were not there.
\<close>

theorem unknown_keys_skipped:
  "unmarshalDict d (VPtr t (Some (VStruct n fvs))) =
     unmarshalDict (filter (\<lambda>kv. fst kv \<in> set (wireKeys (map fst fvs))) d)
       (VPtr t (Some (VStruct n fvs)))"
proof -
  let ?fields = "fieldsMap 0 (map fst fvs) Map.empty"
  have "(\<lambda>kv. ?fields (fst kv) \<noteq> None) = (\<lambda>kv. fst kv \<in> set (wireKeys (map fst fvs)))"
    by (simp only: fieldsMap_eq_None) simp
  then have "unmarshalDict_loop d ?fields fvs =
          unmarshalDict_loop (filter (\<lambda>kv. fst kv \<in> set (wireKeys (map fst fvs))) d) ?fields fvs"
    by (rule subst) (rule unmarshalDict_loop_filter)
  then show ?thesis by (simp only: unmarshalDict_struct)
qed

text \<open>
  Claim C10. A map target has no fields, so injecting any dict into it succeeds and
  stores nothing; and a non-empty dict injected into a map-kind field of a struct sets the
  field to the freshly made, empty map.
\<close>

theorem map_target_stays_empty:
  "(\<forall>d kt vt es. unmarshalDict d (VMap kt vt es) = Inr (VMap kt vt es)) \<and>
   (\<forall>k d rest fields fvs i kt vt.
      fields k = Some i \<and> TypeOf (snd (fvs ! i)) = TMap kt vt \<and> d \<noteq> [] \<longrightarrow>
      unmarshalDict_loop ((k, RawMessage None [] d) # rest) fields fvs =
        unmarshalDict_loop rest fields (fvs[i := (fst (fvs ! i), VMap kt vt [])]))"
  by (simp add: unmarshalDict_map unmarshalDict_loop_Cons injectField_def isRawMessagePtr_def)

theorem map_target_stays_empty_witness:
  "unmarshalDict [(''M'', RawMessage None [] [(''a'', RawMessage (Some (PUint64 1)) [] [])])]
     (VPtr (TStruct ''T'' [StructField ''M'' [] [] (TMap TString TInt64)])
        (Some (VStruct ''T'' [(StructField ''M'' [] [] (TMap TString TInt64),
                               VMap TString TInt64 [(VString ''b'', VInt64 2)])])))
   = Inr (VPtr (TStruct ''T'' [StructField ''M'' [] [] (TMap TString TInt64)])
        (Some (VStruct ''T'' [(StructField ''M'' [] [] (TMap TString TInt64),
                               VMap TString TInt64 [])])))"
proof -
  let ?f = "StructField ''M'' [] [] (TMap TString TInt64)"
  let ?fvs = "[(?f, VMap TString TInt64 [(VString ''b'', VInt64 2)])]"
  let ?fields = "fieldsMap 0 (map fst ?fvs) Map.empty"
  let ?d = "[(''a'', RawMessage (Some (PUint64 1)) [] [])]"
  have h: "?fields ''M'' = Some 0 \<and> TypeOf (snd (?fvs ! 0)) = TMap TString TInt64 \<and> ?d \<noteq> []"
    by (simp add: fieldKey_def)
  from map_target_stays_empty [THEN conjunct2, rule_format,
      where fields = ?fields and k = "''M''" and i = 0 and fvs = ?fvs and d = ?d and rest = "[]", OF h]
  show ?thesis by (simp add: unmarshalDict_struct unmarshal_loop_simps)
qed

section \<open>Properties of projection\<close>

lemma marshalDict_loop_Cons:
  "marshalDict_loop ((field, fv) # rest) d =
     (if PkgPath field \<noteq> [] then marshalDict_loop rest d
      else (case projectValue (Kind (Type field)) fv of
              Inl err \<Rightarrow> Inl err
            | Inr None \<Rightarrow> marshalDict_loop rest d
            | Inr (Some m) \<Rightarrow> marshalDict_loop rest (d @ [(fieldKey field, m)])))"
  by (simp add: projectValue_def Let_def)

lemma marshalList_loop_Cons:
  "marshalList_loop k (x # xs) l =
     (case projectValue k x of
        Inl err \<Rightarrow> Inl err
      | Inr None \<Rightarrow> marshalList_loop k xs l
      | Inr (Some m) \<Rightarrow> marshalList_loop k xs (l @ [m]))"
  by (simp add: projectValue_def)

lemma marshalList_slice:
  "marshalList (VSlice elem vs) =
     (if vs = [] then Inr None
      else (case marshalList_loop (Kind elem) vs [] of
              Inl err \<Rightarrow> Inl err
            | Inr l \<Rightarrow> Inr (Some (RawMessage None l []))))"
  by simp

lemma marshalDict_struct:
  "marshalDict (VPtr t (Some (VStruct n fvs))) =
     (if n = ''RawMessage'' then Inl PanicTypeAssertion
      else (case marshalDict_loop fvs [] of
              Inl err \<Rightarrow> Inl err
            | Inr d \<Rightarrow> Inr (Some (RawMessage None [] d))))"
  by simp

lemma marshalDict_nil: "marshalDict (VPtr t None) = Inl PanicReflect"
  by simp

declare marshalList.simps [simp del] marshalDict.simps [simp del]
  marshalList_loop.simps(2) [simp del] marshalDict_loop.simps(2) [simp del]

lemma projectValue_unsupported: "\<not> supportedKind k \<Longrightarrow> projectValue k v = Inr None"
  by (cases k) (simp_all add: supportedKind_def projectValue_def)

lemma marshalDict_loop_filter:
  "marshalDict_loop fvs d =
     marshalDict_loop (filter (\<lambda>fv. supportedKind (Kind (Type (fst fv)))) fvs) d"
proof (induction fvs arbitrary: d)
  case Nil
  show ?case by simp
next
  case (Cons a fvs)
  obtain f fv where a: "a = (f, fv)" by (cases a)
  show ?case
  proof (cases "supportedKind (Kind (Type f))")
    case False
    with a Cons.IH [of d] show ?thesis
      by (simp add: marshalDict_loop_Cons projectValue_unsupported)
  next
    case True
    show ?thesis
    proof (cases "projectValue (Kind (Type f)) fv")
      case (Inl err)
      with a True Cons.IH [of d] show ?thesis by (simp add: marshalDict_loop_Cons)
    next
      case (Inr mo)
      with a True Cons.IH show ?thesis
        by (cases mo) (simp_all add: marshalDict_loop_Cons)
    qed
  qed
qed

lemma marshalList_loop_unsupported:
  "\<not> supportedKind k \<Longrightarrow> marshalList_loop k vs l = Inr l"
  by (induction vs) (simp_all add: marshalList_loop_Cons projectValue_unsupported)

text \<open>
  The zero values the projection loop does omit: a field that is 0, the empty string or
  an empty slice adds no key.
\<close>

lemma zero_scalar_and_empty_slice_omitted:
  assumes "PkgPath field = []"
    and "Kind (Type field) \<in> {KInt64, KUint64, KString} \<and> fv = Zero (TypeOf fv)
         \<or> Kind (Type field) = KSlice \<and> fv = VSlice elem []"
  shows "marshalDict_loop ((field, fv) # rest) d = marshalDict_loop rest d"
  using assms
  by (auto simp: marshalDict_loop_Cons projectValue_def marshalPOD_def marshalList_slice)

text \<open>
  Claim C5 fails for the nil pointer: projecting a record whose exported struct-pointer
  field is nil panics (\<^verbatim>\<open>val.Elem()\<close> is the zero \<^verbatim>\<open>Value\<close>, and \<^verbatim>\<open>v.Type()\<close> panics
  on it) instead of omitting the key. The record here is \<^verbatim>\<open>&MetaInfo{}\<close>, the zero value
  of the test's type, whose field \<^verbatim>\<open>Info *info\<close> is nil.
\<close>

theorem nil_pointer_field_panics:
  "marshalDict
     (VPtr (TStruct ''MetaInfo'' metaInfoFields)
        (Some (Zero (TStruct ''MetaInfo'' metaInfoFields))))
   = Inl PanicReflect"
  by (simp add: metaInfoFields_def marshalDict_struct marshalDict_loop_Cons projectValue_def
      marshalDict_nil)

text \<open>
  Claim C8, as stated, fails: a record whose only field is an array (kind \<^verbatim>\<open>Array\<close>)
  projects to the dict with no entries, and no error is returned.
\<close>

theorem unsupported_field_counterexample:
  "marshalDict
     (VPtr (TStruct ''InfoHash'' [StructField ''Hash'' [] [] (TOther Array)])
        (Some (VStruct ''InfoHash'' [(StructField ''Hash'' [] [] (TOther Array), VOther Array 1)])))
   = Inr (Some (RawMessage None [] []))"
  by (simp add: marshalDict_struct marshalDict_loop_Cons projectValue_def)

text \<open>
  Claim C8, amended. A field whose declared kind is none of \<^verbatim>\<open>int64\<close>, \<^verbatim>\<open>uint64\<close>,
  \<^verbatim>\<open>string\<close>, slice and pointer is skipped: projecting the fields of a record gives the
  result (dict or error) of projecting only its fields of those five kinds. A non-empty
  slice whose elements are of another kind projects to a list with no elements, again
  with no error.
\<close>

theorem unsupported_fields_skipped:
  "(\<forall>fvs d. marshalDict_loop fvs d =
      marshalDict_loop (filter (\<lambda>fv. supportedKind (Kind (Type (fst fv)))) fvs) d) \<and>
   (\<forall>elem vs. \<not> supportedKind (Kind elem) \<and> vs \<noteq> [] \<longrightarrow>
      marshalList (VSlice elem vs) = Inr (Some (RawMessage None [] [])))"
proof (intro conjI allI impI)
  fix fvs d
  show "marshalDict_loop fvs d =
      marshalDict_loop (filter (\<lambda>fv. supportedKind (Kind (Type (fst fv)))) fvs) d"
    by (rule marshalDict_loop_filter)
next
  fix elem and vs :: "gval list"
  assume "\<not> supportedKind (Kind elem) \<and> vs \<noteq> []"
  then show "marshalList (VSlice elem vs) = Inr (Some (RawMessage None [] []))"
    by (simp add: marshalList_slice marshalList_loop_unsupported)
qed

theorem unsupported_fields_skipped_witness:
  "marshalList (VSlice (TOther Bool) [VOther Bool 1, VOther Bool 0]) =
     Inr (Some (RawMessage None [] []))"
proof -
  have h: "\<not> supportedKind (Kind (TOther Bool)) \<and> [VOther Bool 1, VOther Bool 0] \<noteq> []"
    by (simp add: supportedKind_def)
  from unsupported_fields_skipped [THEN conjunct2, rule_format, OF h] show ?thesis .
qed

section \<open>Projection followed by injection\<close>

lemma ZeroFields_eq: "ZeroFields fs = map (\<lambda>f. (f, Zero (Type f))) fs"
proof (induction fs)
  case Nil
  show ?case by simp
next
  case (Cons f fs)
  then show ?case by (cases f) simp
qed

lemma fieldsMap_notin: "k \<notin> set (wireKeys fs) \<Longrightarrow> fieldsMap i fs m k = m k"
  by (induction fs arbitrary: i m) (auto simp: wireKeys_def)

lemma wireKeys_Cons:
  "wireKeys (f # fs) = (if PkgPath f = [] then fieldKey f # wireKeys fs else wireKeys fs)"
  by (simp add: wireKeys_def)

lemma fieldsMap_lookup:
  "distinct (wireKeys fs) \<Longrightarrow> j < length fs \<Longrightarrow> PkgPath (fs ! j) = [] \<Longrightarrow>
     fieldsMap i fs m (fieldKey (fs ! j)) = Some (i + j)"
proof (induction fs arbitrary: i m j)
  case Nil
  then show ?case by simp
next
  case (Cons f fs)
  show ?case
  proof (cases j)
    case 0
    with Cons.prems have ex: "PkgPath f = []" by simp
    with Cons.prems(1) have "fieldKey f \<notin> set (wireKeys fs)" by (simp add: wireKeys_Cons)
    then have "fieldsMap (i + 1) fs (m(fieldKey f \<mapsto> i)) (fieldKey f) = Some i"
      by (simp add: fieldsMap_notin)
    with 0 ex show ?thesis by simp
  next
    case (Suc j')
    from Cons.prems(1) have d: "distinct (wireKeys fs)"
      by (simp add: wireKeys_Cons split: if_splits)
    from Cons.prems Suc have j': "j' < length fs" "PkgPath (fs ! j') = []" by simp_all
    from Cons.IH [OF d j'] Suc show ?thesis by simp
  qed
qed

lemma elems_roundtrip:
  assumes "\<forall>v\<in>set vs. TypeOf v = t \<and> roundTrips v"
  shows "\<exists>ms. length ms = length vs \<and>
           (\<forall>acc. marshalList_loop (Kind t) vs acc = Inr (acc @ ms)) \<and>
           (\<forall>pre. unmarshalList_loop (length pre) ms t pre = Inr (pre @ vs))"
  using assms
proof (induction vs)
  case Nil
  show ?case by (simp add: unmarshal_loop_simps)
next
  case (Cons v vs)
  from Cons.prems have tv: "TypeOf v = t" and rt: "roundTrips v" by simp_all
  from rt tv obtain m where pm: "projectValue (Kind t) v = Inr (Some m)"
    and im: "injectElem m t (Zero t) = Inr v"
    by (auto simp: roundTrips_def)
  from Cons.prems have "\<forall>v\<in>set vs. TypeOf v = t \<and> roundTrips v" by simp
  from Cons.IH [OF this] obtain ms where len: "length ms = length vs"
    and mar: "\<And>acc. marshalList_loop (Kind t) vs acc = Inr (acc @ ms)"
    and unm: "\<And>pre. unmarshalList_loop (length pre) ms t pre = Inr (pre @ vs)"
    by blast
  have a: "length (m # ms) = length (v # vs)" using len by simp
  have b: "marshalList_loop (Kind t) (v # vs) acc = Inr (acc @ m # ms)" for acc
    using pm mar [of "acc @ [m]"] by (simp add: marshalList_loop_Cons)
  have c: "unmarshalList_loop (length pre) (m # ms) t pre = Inr (pre @ v # vs)" for pre
    using im unm [of "pre @ [v]"] by (simp add: unmarshalList_loop_Cons)
  from a b c show ?case by blast
qed

lemma fields_roundtrip:
  assumes "\<forall>fv\<in>set suf. TypeOf (snd fv) = Type (fst fv) \<and>
             (if PkgPath (fst fv) = [] then roundTrips (snd fv) else snd fv = Zero (Type (fst fv)))"
  shows "\<exists>kvs. map fst kvs = wireKeys (map fst suf) \<and>
           (\<forall>acc. marshalDict_loop suf acc = Inr (acc @ kvs)) \<and>
           (\<forall>pre fields.
              (\<forall>j<length suf. PkgPath (fst (suf ! j)) = [] \<longrightarrow>
                 fields (fieldKey (fst (suf ! j))) = Some (length pre + j)) \<longrightarrow>
              unmarshalDict_loop kvs fields (pre @ ZeroFields (map fst suf)) = Inr (pre @ suf))"
  using assms
proof (induction suf)
  case Nil
  show ?case by (simp add: unmarshal_loop_simps wireKeys_def)
next
  case (Cons a suf)
  obtain f fv where a: "a = (f, fv)" by (cases a)
  from Cons.prems a have tf: "TypeOf fv = Type f"
    and hd: "if PkgPath f = [] then roundTrips fv else fv = Zero (Type f)"
    and tl: "\<forall>fv\<in>set suf. TypeOf (snd fv) = Type (fst fv) \<and>
             (if PkgPath (fst fv) = [] then roundTrips (snd fv) else snd fv = Zero (Type (fst fv)))"
    by (simp_all cong: if_cong)
  from Cons.IH [OF tl] obtain kvs where keys: "map fst kvs = wireKeys (map fst suf)"
    and mar: "\<And>acc. marshalDict_loop suf acc = Inr (acc @ kvs)"
    and unm: "\<And>pre fields.
              (\<forall>j<length suf. PkgPath (fst (suf ! j)) = [] \<longrightarrow>
                 fields (fieldKey (fst (suf ! j))) = Some (length pre + j)) \<Longrightarrow>
              unmarshalDict_loop kvs fields (pre @ ZeroFields (map fst suf)) = Inr (pre @ suf)"
    by blast
  have shift: "\<forall>j<length suf. PkgPath (fst (suf ! j)) = [] \<longrightarrow>
                 fields (fieldKey (fst (suf ! j))) = Some (length (pre @ [(f, fv)]) + j)"
    if "\<forall>j<length (a # suf). PkgPath (fst ((a # suf) ! j)) = [] \<longrightarrow>
                 fields (fieldKey (fst ((a # suf) ! j))) = Some (length pre + j)"
    for pre :: "(gtype StructField \<times> gval) list" and fields
  proof (intro allI impI)
    fix j assume "j < length suf" "PkgPath (fst (suf ! j)) = []"
    with that [rule_format, of "Suc j"] show
      "fields (fieldKey (fst (suf ! j))) = Some (length (pre @ [(f, fv)]) + j)" by simp
  qed
  show ?case
  proof (cases "PkgPath f = []")
    case False
    with hd have z: "fv = Zero (Type f)" by simp
    have k: "map fst kvs = wireKeys (map fst (a # suf))"
      using keys False a by (simp add: wireKeys_Cons)
    have m: "marshalDict_loop (a # suf) acc = Inr (acc @ kvs)" for acc
      using False a mar [of acc] by (simp add: marshalDict_loop_Cons)
    have u: "unmarshalDict_loop kvs fields (pre @ ZeroFields (map fst (a # suf))) = Inr (pre @ a # suf)"
      if "\<forall>j<length (a # suf). PkgPath (fst ((a # suf) ! j)) = [] \<longrightarrow>
                 fields (fieldKey (fst ((a # suf) ! j))) = Some (length pre + j)"
      for pre fields
      using unm [OF shift [OF that]] a z by (simp add: ZeroFields_eq)
    from k m u show ?thesis by blast
  next
    case True
    with hd have "roundTrips fv" by simp
    with tf obtain m where pm: "projectValue (Kind (Type f)) fv = Inr (Some m)"
      and im: "injectField m (Zero (Type f)) = Inr fv"
      by (auto simp: roundTrips_def)
    let ?kvs = "(fieldKey f, m) # kvs"
    have k: "map fst ?kvs = wireKeys (map fst (a # suf))"
      using keys True a by (simp add: wireKeys_Cons)
    have mm: "marshalDict_loop (a # suf) acc = Inr (acc @ ?kvs)" for acc
      using True a pm mar [of "acc @ [(fieldKey f, m)]"] by (simp add: marshalDict_loop_Cons)
    have u: "unmarshalDict_loop ?kvs fields (pre @ ZeroFields (map fst (a # suf))) = Inr (pre @ a # suf)"
      if h: "\<forall>j<length (a # suf). PkgPath (fst ((a # suf) ! j)) = [] \<longrightarrow>
                 fields (fieldKey (fst ((a # suf) ! j))) = Some (length pre + j)"
      for pre fields
    proof -
      from h [rule_format, of 0] True a have look: "fields (fieldKey f) = Some (length pre)" by simp
      have st: "pre @ ZeroFields (map fst (a # suf)) =
                  pre @ (f, Zero (Type f)) # ZeroFields (map fst suf)"
        using a by (simp add: ZeroFields_eq)
      have rest: "unmarshalDict_loop kvs fields ((pre @ [(f, fv)]) @ ZeroFields (map fst suf)) =
                    Inr ((pre @ [(f, fv)]) @ suf)"
        by (rule unm [OF shift [OF h]])
      show ?thesis
        unfolding st using look im rest a by (simp add: unmarshalDict_loop_Cons)
    qed
    from k mm u show ?thesis by blast
  qed
qed

lemma record_roundtrip:
  assumes "\<forall>fv\<in>set fvs. TypeOf (snd fv) = Type (fst fv) \<and>
             (if PkgPath (fst fv) = [] then roundTrips (snd fv) else snd fv = Zero (Type (fst fv)))"
    and "distinct (wireKeys (map fst fvs))"
    and "n \<noteq> ''RawMessage''"
    and "T = TStruct n (map fst fvs)"
  shows "\<exists>d. map fst d = wireKeys (map fst fvs) \<and>
           marshalDict (VPtr T (Some (VStruct n fvs))) = Inr (Some (RawMessage None [] d)) \<and>
           unmarshalDict d (VPtr T (Some (Zero T))) = Inr (VPtr T (Some (VStruct n fvs)))"
proof -
  from fields_roundtrip [OF assms(1)] obtain kvs where keys: "map fst kvs = wireKeys (map fst fvs)"
    and mar: "\<And>acc. marshalDict_loop fvs acc = Inr (acc @ kvs)"
    and unm: "\<And>pre fields.
              (\<forall>j<length fvs. PkgPath (fst (fvs ! j)) = [] \<longrightarrow>
                 fields (fieldKey (fst (fvs ! j))) = Some (length pre + j)) \<Longrightarrow>
              unmarshalDict_loop kvs fields (pre @ ZeroFields (map fst fvs)) = Inr (pre @ fvs)"
    by blast
  let ?fields = "fieldsMap 0 (map fst fvs) Map.empty"
  have look: "\<forall>j<length fvs. PkgPath (fst (fvs ! j)) = [] \<longrightarrow>
                 ?fields (fieldKey (fst (fvs ! j))) = Some (length ([] :: (gtype StructField \<times> gval) list) + j)"
  proof (intro allI impI)
    fix j assume j: "j < length fvs" and ex: "PkgPath (fst (fvs ! j)) = []"
    from fieldsMap_lookup [OF assms(2), of j 0 Map.empty] j ex
    show "?fields (fieldKey (fst (fvs ! j))) = Some (length ([] :: (gtype StructField \<times> gval) list) + j)"
      by simp
  qed
  from unm [OF look] have u: "unmarshalDict_loop kvs ?fields (ZeroFields (map fst fvs)) = Inr fvs"
    by simp
  have fz: "map fst (ZeroFields (map fst fvs)) = map fst fvs"
    by (simp add: ZeroFields_eq comp_def)
  have a: "marshalDict (VPtr T (Some (VStruct n fvs))) = Inr (Some (RawMessage None [] kvs))"
    using assms(3) mar [of "[]"] by (simp add: marshalDict_struct)
  have b: "unmarshalDict kvs (VPtr T (Some (Zero T))) = Inr (VPtr T (Some (VStruct n fvs)))"
    using u by (simp add: assms(4) unmarshalDict_struct fz)
  from keys a b show ?thesis by blast
qed

lemma unmarshalList_slice:
  "unmarshalList l (VSlice elem vs) =
     (case unmarshalList_loop 0 l elem vs of
        Inl err \<Rightarrow> Inl err
      | Inr vs' \<Rightarrow> Inr (VSlice elem vs'))"
  by (simp add: unmarshalList.simps)

lemma faithful_roundTrips: "faithful v \<Longrightarrow> roundTrips v"
proof (induction v rule: faithful.induct)
  case (1 i)
  then show ?case
    by (simp add: roundTrips_def projectValue_def marshalPOD_def injectField_def injectElem_def
        isRawMessagePtr_def unmarshalPOD_def isPOD_def)
next
  case (2 u)
  then show ?case
    by (simp add: roundTrips_def projectValue_def marshalPOD_def injectField_def injectElem_def
        isRawMessagePtr_def unmarshalPOD_def isPOD_def)
next
  case (3 s)
  then show ?case
    by (simp add: roundTrips_def projectValue_def marshalPOD_def injectField_def injectElem_def
        isRawMessagePtr_def unmarshalPOD_def isPOD_def)
next
  case (4 t vs)
  from "4.prems" have ne: "vs \<noteq> []" and el: "\<forall>v\<in>set vs. TypeOf v = t \<and> faithful v" by simp_all
  with "4.IH" have "\<forall>v\<in>set vs. TypeOf v = t \<and> roundTrips v" by blast
  from elems_roundtrip [OF this] obtain ms where len: "length ms = length vs"
    and mar: "\<And>acc. marshalList_loop (Kind t) vs acc = Inr (acc @ ms)"
    and unm: "\<And>pre. unmarshalList_loop (length pre) ms t pre = Inr (pre @ vs)"
    by blast
  from len ne have mne: "ms \<noteq> []" by auto
  have p: "projectValue (Kind (TypeOf (VSlice t vs))) (VSlice t vs) = Inr (Some (RawMessage None ms []))"
    using ne mar [of "[]"] by (simp add: projectValue_def marshalList_slice)
  have u: "unmarshalList ms (VSlice t []) = Inr (VSlice t vs)"
    using unm [of "[]"] by (simp add: unmarshalList_slice)
  have f: "injectField (RawMessage None ms []) (Zero (TypeOf (VSlice t vs))) = Inr (VSlice t vs)"
    using mne u by (simp add: injectField_def isRawMessagePtr_def)
  have e: "injectElem (RawMessage None ms []) (TypeOf (VSlice t vs)) (Zero (TypeOf (VSlice t vs)))
             = Inr (VSlice t vs)"
    using mne u by (simp add: injectElem_def isRawMessagePtr_def)
  from p f e show ?case unfolding roundTrips_def by blast
next
  case (5 t n fvs)
  let ?v = "VPtr t (Some (VStruct n fvs))"
  from "5.prems" have t: "t = TStruct n (map fst fvs)" and n: "n \<noteq> ''RawMessage''"
    and kne: "wireKeys (map fst fvs) \<noteq> []" and dist: "distinct (wireKeys (map fst fvs))"
    and fl: "\<forall>fv\<in>set fvs. TypeOf (snd fv) = Type (fst fv) \<and>
        (if PkgPath (fst fv) = [] then faithful (snd fv) else snd fv = Zero (Type (fst fv)))"
    by simp_all
  have "\<forall>fv\<in>set fvs. TypeOf (snd fv) = Type (fst fv) \<and>
        (if PkgPath (fst fv) = [] then roundTrips (snd fv) else snd fv = Zero (Type (fst fv)))"
  proof
    fix fv assume m: "fv \<in> set fvs"
    with fl have a: "TypeOf (snd fv) = Type (fst fv)"
      and b: "if PkgPath (fst fv) = [] then faithful (snd fv) else snd fv = Zero (Type (fst fv))"
      by simp_all
    show "TypeOf (snd fv) = Type (fst fv) \<and>
        (if PkgPath (fst fv) = [] then roundTrips (snd fv) else snd fv = Zero (Type (fst fv)))"
    proof (cases "PkgPath (fst fv) = []")
      case True
      with b have "faithful (snd fv)" by simp
      with "5.IH" [OF m True] a True show ?thesis by simp
    next
      case False
      with a b show ?thesis by simp
    qed
  qed
  from record_roundtrip [OF this dist n t] obtain d where keys: "map fst d = wireKeys (map fst fvs)"
    and mar: "marshalDict ?v = Inr (Some (RawMessage None [] d))"
    and unm: "unmarshalDict d (VPtr t (Some (Zero t))) = Inr ?v"
    by blast
  from keys kne have dne: "d \<noteq> []" by auto
  have nr: "\<not> isRawMessagePtr (TPtr t)" using t n by (simp add: isRawMessagePtr_def)
  have p: "projectValue (Kind (TypeOf ?v)) ?v = Inr (Some (RawMessage None [] d))"
    using mar by (simp add: projectValue_def)
  have f: "injectField (RawMessage None [] d) (Zero (TypeOf ?v)) = Inr ?v"
    using dne unm nr by (simp add: injectField_def)
  have e: "injectElem (RawMessage None [] d) (TypeOf ?v) (Zero (TypeOf ?v)) = Inr ?v"
    using dne unm nr by (simp add: injectElem_def)
  from p f e show ?case unfolding roundTrips_def by blast
qed simp_all

text \<open>
  Claim C2, as stated, fails. A record whose only field is the non-empty slice
  \<^verbatim>\<open>[]int64{0, 5}\<close> comes back with the slice \<^verbatim>\<open>[]int64{5}\<close>: projection drops a zero
  element. A record with a non-zero unexported field comes back with that field zero.
\<close>

theorem project_inject_counterexample:
  "marshalDict
     (VPtr (TStruct ''T'' [StructField ''Xs'' [] [] (TSlice TInt64)])
        (Some (VStruct ''T'' [(StructField ''Xs'' [] [] (TSlice TInt64),
                               VSlice TInt64 [VInt64 0, VInt64 5])])))
     = Inr (Some (RawMessage None []
                   [(''Xs'', RawMessage None [RawMessage (Some (PInt64 5)) [] []] [])])) \<and>
   unmarshalDict [(''Xs'', RawMessage None [RawMessage (Some (PInt64 5)) [] []] [])]
     (VPtr (TStruct ''T'' [StructField ''Xs'' [] [] (TSlice TInt64)])
        (Some (Zero (TStruct ''T'' [StructField ''Xs'' [] [] (TSlice TInt64)]))))
     = Inr (VPtr (TStruct ''T'' [StructField ''Xs'' [] [] (TSlice TInt64)])
             (Some (VStruct ''T'' [(StructField ''Xs'' [] [] (TSlice TInt64),
                                    VSlice TInt64 [VInt64 5])]))) \<and>
   marshalDict
     (VPtr (TStruct ''U'' [StructField ''a'' ''bencode'' [] TInt64, StructField ''B'' [] [] TInt64])
        (Some (VStruct ''U'' [(StructField ''a'' ''bencode'' [] TInt64, VInt64 1),
                               (StructField ''B'' [] [] TInt64, VInt64 2)])))
     = Inr (Some (RawMessage None [] [(''B'', RawMessage (Some (PInt64 2)) [] [])])) \<and>
   unmarshalDict [(''B'', RawMessage (Some (PInt64 2)) [] [])]
     (VPtr (TStruct ''U'' [StructField ''a'' ''bencode'' [] TInt64, StructField ''B'' [] [] TInt64])
        (Some (Zero (TStruct ''U''
                 [StructField ''a'' ''bencode'' [] TInt64, StructField ''B'' [] [] TInt64]))))
     = Inr (VPtr (TStruct ''U'' [StructField ''a'' ''bencode'' [] TInt64, StructField ''B'' [] [] TInt64])
             (Some (VStruct ''U'' [(StructField ''a'' ''bencode'' [] TInt64, VInt64 0),
                                    (StructField ''B'' [] [] TInt64, VInt64 2)])))"
  by (simp add: marshalDict_struct marshalDict_loop_Cons marshalList_loop_Cons projectValue_def
      marshalList_slice marshalPOD_def fieldKey_def unmarshalDict_struct unmarshal_loop_simps
      injectField_def injectElem_def isRawMessagePtr_def unmarshalList_slice unmarshalPOD_def
      isPOD_def)

text \<open>
  Claim C2, amended. Let a record have pairwise distinct wire keys, every exported field
  non-zero and non-empty all the way down (no zero element in a slice, every pointer a
  non-nil pointer to such a record with at least one exported field, no struct type named
  \<^verbatim>\<open>RawMessage\<close>), and every unexported field zero. Then projecting it succeeds, and
  injecting the resulting dict into a fresh value of the same type yields the record.
\<close>

theorem project_inject_roundtrip:
  assumes "faithfulRecord n fvs" and "T = TStruct n (map fst fvs)"
  shows "\<exists>rm. marshalDict (VPtr T (Some (VStruct n fvs))) = Inr (Some rm) \<and>
           unmarshalDict (D rm) (VPtr T (Some (Zero T))) = Inr (VPtr T (Some (VStruct n fvs)))"
proof -
  from assms(1) have n: "n \<noteq> ''RawMessage''" and dist: "distinct (wireKeys (map fst fvs))"
    and fl: "\<forall>fv\<in>set fvs. TypeOf (snd fv) = Type (fst fv) \<and>
        (if PkgPath (fst fv) = [] then faithful (snd fv) else snd fv = Zero (Type (fst fv)))"
    by (simp_all add: faithfulRecord_def)
  have "\<forall>fv\<in>set fvs. TypeOf (snd fv) = Type (fst fv) \<and>
        (if PkgPath (fst fv) = [] then roundTrips (snd fv) else snd fv = Zero (Type (fst fv)))"
    using fl faithful_roundTrips by (simp cong: if_cong)
  from record_roundtrip [OF this dist n assms(2)] obtain d where
    "marshalDict (VPtr T (Some (VStruct n fvs))) = Inr (Some (RawMessage None [] d))"
    "unmarshalDict d (VPtr T (Some (Zero T))) = Inr (VPtr T (Some (VStruct n fvs)))"
    by blast
  then show ?thesis by simp
qed

lemmas example_defs = fileType_def infoType_def metaInfoFields_def structOf_def exampleFile_def
  exampleInfo_def exampleMetaInfo_def

theorem project_inject_roundtrip_witness:
  "\<exists>rm. marshalDict (VPtr (TStruct ''MetaInfo'' metaInfoFields)
                       (Some (VStruct ''MetaInfo'' exampleMetaInfo))) = Inr (Some rm) \<and>
         unmarshalDict (D rm)
           (VPtr (TStruct ''MetaInfo'' metaInfoFields)
              (Some (Zero (TStruct ''MetaInfo'' metaInfoFields))))
         = Inr (VPtr (TStruct ''MetaInfo'' metaInfoFields)
                  (Some (VStruct ''MetaInfo'' exampleMetaInfo)))"
proof -
  have h: "faithfulRecord ''MetaInfo'' exampleMetaInfo"
    by (simp add: faithfulRecord_def example_defs wireKeys_def fieldKey_def TagGet_def)
  have t: "TStruct ''MetaInfo'' metaInfoFields = TStruct ''MetaInfo'' (map fst exampleMetaInfo)"
    by (simp add: example_defs)
  from project_inject_roundtrip [OF h t] show ?thesis .
qed

end
